theory Spec2Isabelle
  imports Main
begin

section \<open>Strings: the library calls of configor.go and utils.go\<close>

text \<open>
  The repository has two source files: \<^verbatim>\<open>configor.go\<close> (Load and the resolver) and
  the file of the decoding helpers and of processTags, called \<^verbatim>\<open>utils.go\<close> here; its
  text stands in \<^verbatim>\<open>src/README.md\<close> after the README, and the line numbers given for it
  below are those of that file.

  Go strings are byte sequences; they are modelled as \<open>string\<close> (a list of
  \<open>char\<close>, one per byte). The functions below are the standard-library calls the
  repository makes, written out on lists.
\<close>

text \<open>\<^verbatim>\<open>strings.HasSuffix\<close>, \<^verbatim>\<open>strings.HasPrefix\<close>, \<^verbatim>\<open>strings.TrimSuffix\<close>,
  \<^verbatim>\<open>strings.Contains\<close>.\<close>

definition HasSuffix :: "string \<Rightarrow> string \<Rightarrow> bool" where
  "HasSuffix s suf = (length suf \<le> length s \<and> drop (length s - length suf) s = suf)"

definition HasPrefix :: "string \<Rightarrow> string \<Rightarrow> bool" where
  "HasPrefix s p = (take (length p) s = p)"

definition TrimSuffix :: "string \<Rightarrow> string \<Rightarrow> string" where
  "TrimSuffix s suf = (if HasSuffix s suf then take (length s - length suf) s else s)"

fun Contains :: "string \<Rightarrow> string \<Rightarrow> bool" where
  "Contains [] sub = (sub = [])"
| "Contains (c # s) sub = (HasPrefix (c # s) sub \<or> Contains s sub)"

text \<open>
  \<^verbatim>\<open>path.Ext\<close>: the suffix beginning at the final dot in the final
  slash-separated element, empty when there is no such dot. The library scans from the
  last byte towards the first and stops at a slash; \<open>extScan\<close> is that scan over the
  reversed path, \<open>acc\<close> holding the bytes already passed.
\<close>

fun extScan :: "string \<Rightarrow> string \<Rightarrow> string" where
  "extScan [] acc = []"
| "extScan (c # rs) acc =
     (if c = CHR ''/'' then []
      else if c = CHR ''.'' then c # acc
      else extScan rs (c # acc))"

definition Ext :: "string \<Rightarrow> string" where
  "Ext p = extScan (rev p) []"

text \<open>\<^verbatim>\<open>strings.Join\<close> with a separator.\<close>

fun Join :: "string list \<Rightarrow> string \<Rightarrow> string" where
  "Join [] sep = []"
| "Join [x] sep = x"
| "Join (x # y # ys) sep = x @ sep @ Join (y # ys) sep"

text \<open>Character classes of the regular expressions, on bytes.\<close>

definition isUpper :: "char \<Rightarrow> bool" where
  "isUpper c = (65 \<le> (of_char c :: nat) \<and> (of_char c :: nat) \<le> 90)"

definition isLower :: "char \<Rightarrow> bool" where
  "isLower c = (97 \<le> (of_char c :: nat) \<and> (of_char c :: nat) \<le> 122)"

definition isDigit :: "char \<Rightarrow> bool" where
  "isDigit c = (48 \<le> (of_char c :: nat) \<and> (of_char c :: nat) \<le> 57)"

text \<open>
  \<^verbatim>\<open>strings.ToUpper\<close> on ASCII input: a lower-case letter is moved down by 32, every
  other byte is kept. (Letters outside ASCII, which Go also maps, are outside this
  model.)
\<close>

definition upperChar :: "char \<Rightarrow> char" where
  "upperChar c = (if isLower c then char_of ((of_char c :: nat) - 32) else c)"

definition ToUpper :: "string \<Rightarrow> string" where
  "ToUpper s = map upperChar s"

text \<open>\<^verbatim>\<open>strings.ReplaceAll(output, "-", "_")\<close>, the one use the repository makes of it.\<close>

definition replaceDash :: "string \<Rightarrow> string" where
  "replaceDash s = map (\<lambda>c. if c = CHR ''-'' then CHR ''_'' else c) s"

section \<open>toScreamingSnakeCase (utils.go)\<close>

text \<open>
  \<^verbatim>\<open>matchFirstCap = regexp.MustCompile("([A-Z])([A-Z][a-z])")\<close> and
  \<^verbatim>\<open>matchAllCap = regexp.MustCompile("([a-z0-9])([A-Z])")\<close>, each used only in
  \<^verbatim>\<open>ReplaceAllString(input, "${1}_${2}")\<close>. ReplaceAllString rewrites the leftmost
  non-overlapping matches from left to right: at a position where the pattern matches,
  the match is replaced and the scan resumes after it; elsewhere one byte is copied.
\<close>

fun replaceFirstCap :: "string \<Rightarrow> string" where
  "replaceFirstCap (a # b # c # rest) =
     (if isUpper a \<and> isUpper b \<and> isLower c
      then a # CHR ''_'' # b # c # replaceFirstCap rest
      else a # replaceFirstCap (b # c # rest))"
| "replaceFirstCap s = s"

fun replaceAllCap :: "string \<Rightarrow> string" where
  "replaceAllCap (a # b # rest) =
     (if (isLower a \<or> isDigit a) \<and> isUpper b
      then a # CHR ''_'' # b # replaceAllCap rest
      else a # replaceAllCap (b # rest))"
| "replaceAllCap s = s"

definition toScreamingSnakeCase :: "string \<Rightarrow> string" where
  "toScreamingSnakeCase input =
     ToUpper (replaceDash (replaceAllCap (replaceFirstCap input)))"

section \<open>The resolver (configor.go)\<close>

text \<open>
  What the resolver reads of the process: the environment variables
  (\<^verbatim>\<open>os.Getenv\<close>, empty for an unset name), the program name \<^verbatim>\<open>os.Args[0]\<close>, and the
  filesystem through \<^verbatim>\<open>os.Stat\<close>: \<open>IsRegular p\<close> holds when the call succeeds on \<open>p\<close>
  and the mode is that of a regular file.
\<close>

record process =
  Getenv :: "string \<Rightarrow> string"
  Args0 :: string
  IsRegular :: "string \<Rightarrow> bool"

record Config =
  Environment :: string
  EnvironmentPrefix :: string
  ErrorOnUnmatchedKeys :: bool

text \<open>\<^verbatim>\<open>testRegexp = regexp.MustCompile("_test|(\\.test$)")\<close>, used with MatchString.\<close>

definition testRegexp :: "string \<Rightarrow> bool" where
  "testRegexp s = (Contains s ''_test'' \<or> HasSuffix s ''.test'')"

definition GetEnvironment :: "Config \<Rightarrow> process \<Rightarrow> string" where
  "GetEnvironment c p =
     (if Environment c = ''''
      then (if Getenv p ''CONFIGOR_ENV'' \<noteq> '''' then Getenv p ''CONFIGOR_ENV''
            else if testRegexp (Args0 p) then ''test''
            else ''development'')
      else Environment c)"

definition GetEnvironmentPrefix :: "Config \<Rightarrow> process \<Rightarrow> string" where
  "GetEnvironmentPrefix c p =
     (if EnvironmentPrefix c = '''' then Getenv p ''CONFIGOR_ENV_PREFIX''
      else EnvironmentPrefix c)"

definition GetErrorOnUnmatchedKeys :: "Config \<Rightarrow> bool" where
  "GetErrorOnUnmatchedKeys c = ErrorOnUnmatchedKeys c"

text \<open>
  \<open>envFile\<close> is the name that getFilenameWithENVPrefix builds before it asks the
  filesystem; the function itself returns the name, or fails with
  \<^verbatim>\<open>failed to find file <file>\<close>.
\<close>

definition envFile :: "string \<Rightarrow> string \<Rightarrow> string" where
  "envFile file env =
     (let extname = Ext file in
      if extname = '''' then file @ ''.'' @ env
      else TrimSuffix file extname @ ''.'' @ env @ extname)"

definition getFilenameWithENVPrefix :: "process \<Rightarrow> string \<Rightarrow> string \<Rightarrow> string + string" where
  "getFilenameWithENVPrefix p file env =
     (if IsRegular p (envFile file env) then Inr (envFile file env)
      else Inl (''failed to find file '' @ file))"

text \<open>
  The body of the loop of getConfigurationFiles for one candidate: \<open>results\<close> comes
  in and goes out, \<open>foundFile\<close> is local to the iteration.
\<close>

definition checkCandidate :: "process \<Rightarrow> string \<Rightarrow> string \<Rightarrow> string list \<Rightarrow> string list" where
  "checkCandidate p env file results =
     (let (foundFile, results) =
            (if IsRegular p file then (True, results @ [file]) else (False, results));
          (foundFile, results) =
            (case getFilenameWithENVPrefix p file env of
               Inr f \<Rightarrow> (True, results @ [f])
             | Inl _ \<Rightarrow> (foundFile, results))
      in if \<not> foundFile
         then (case getFilenameWithENVPrefix p file ''example'' of
                 Inr example \<Rightarrow> results @ [example]
               | Inl _ \<Rightarrow> results)
         else results)"

text \<open>
  The loop \<^verbatim>\<open>for i := len(files) - 1; i >= 0; i--\<close>: \<open>filesLoop p env files n results\<close>
  is the state with \<open>i = n - 1\<close>, so that \<open>n = 0\<close> is the exit.
\<close>

fun filesLoop :: "process \<Rightarrow> string \<Rightarrow> string list \<Rightarrow> nat \<Rightarrow> string list \<Rightarrow> string list" where
  "filesLoop p env files 0 results = results"
| "filesLoop p env files (Suc i) results =
     filesLoop p env files i (checkCandidate p env (files ! i) results)"

definition getConfigurationFiles :: "Config \<Rightarrow> process \<Rightarrow> string list \<Rightarrow> string list" where
  "getConfigurationFiles c p files =
     filesLoop p (GetEnvironment c p) files (length files) []"

section \<open>Target structures\<close>

text \<open>
  The binder walks its target through the reflect package. A \<^verbatim>\<open>reflect.StructField\<close>
  is a record of what the binder reads of it: the field's name, its package path (empty
  exactly for an exported field), whether it is embedded, and its tag, a list of
  key/value pairs in the order written. \<^verbatim>\<open>Tag.Get\<close> returns the value of the first pair
  with the key, and the empty string when there is none.
\<close>

record StructField =
  Name :: string
  PkgPath :: string
  Anonymous :: bool
  Tag :: "(string \<times> string) list"

definition tagGet :: "(string \<times> string) list \<Rightarrow> string \<Rightarrow> string" where
  "tagGet tag key = (case map_of tag key of None \<Rightarrow> '''' | Some v \<Rightarrow> v)"

text \<open>
  Types and values of the target. The kinds are the ones the binder distinguishes
  (pointer, slice, struct) and three scalar kinds; a struct type lists its fields in
  declaration order. A pointer is nil (\<open>VPtr None\<close>) or owns its pointee; a slice is nil
  (\<open>VSlice None\<close>) or a list of elements: targets are trees, without sharing. Floats,
  maps, interfaces, channels, functions and recursive named types are outside the model.
\<close>

datatype gotype =
    TBool
  | TInt
  | TString
  | TPtr gotype
  | TSlice gotype
  | TStruct "(StructField \<times> gotype) list"

datatype goval =
    VBool bool
  | VInt int
  | VString string
  | VPtr "goval option"
  | VSlice "goval list option"
  | VStruct "goval list"

text \<open>\<^verbatim>\<open>reflect.Kind.String()\<close> for the kinds of the model.\<close>

fun kindString :: "gotype \<Rightarrow> string" where
  "kindString TBool = ''bool''"
| "kindString TInt = ''int''"
| "kindString TString = ''string''"
| "kindString (TPtr _) = ''ptr''"
| "kindString (TSlice _) = ''slice''"
| "kindString (TStruct _) = ''struct''"

text \<open>\<^verbatim>\<open>reflect.Zero\<close>: the zero value of a type.\<close>

function zeroValue :: "gotype \<Rightarrow> goval"
  and zeroFields :: "(StructField \<times> gotype) list \<Rightarrow> goval list" where
  "zeroValue TBool = VBool False"
| "zeroValue TInt = VInt 0"
| "zeroValue TString = VString ''''"
| "zeroValue (TPtr t) = VPtr None"
| "zeroValue (TSlice t) = VSlice None"
| "zeroValue (TStruct fds) = VStruct (zeroFields fds)"
| "zeroFields [] = []"
| "zeroFields ((fs, t) # fds) = zeroValue t # zeroFields fds"
  by pat_completeness auto
termination
  by (relation "measure (\<lambda>x. case x of Inl t \<Rightarrow> size t
                                 | Inr fds \<Rightarrow> size_list (size_prod (\<lambda>_. 0) size) fds)")
     auto

text \<open>The errors of the package. \<open>External\<close> is an error made by a collaborator (the
  operating system or a decoder), known by its message only.\<close>

datatype error =
    EOF
  | ErrorNew string
  | External string
  | UnmatchedTomlKeysError "string list"

text \<open>
  A decoder call \<^verbatim>\<open>Unmarshal(data, target)\<close> is a function of the bytes, the target's
  type and the target's current value; it answers with the target's value after the
  call and the error it returned. Go mutates the target in place and returns the error:
  every operation below returns the value after the call beside its error.
\<close>

type_synonym decoder = "string \<Rightarrow> gotype \<Rightarrow> goval \<Rightarrow> goval \<times> error option"

section \<open>The binder: processTags (utils.go)\<close>

text \<open>A field is skipped unless \<^verbatim>\<open>field.CanAddr() && field.CanInterface()\<close>. The
  fields of an addressable struct are addressable, and \<^verbatim>\<open>CanInterface\<close> fails exactly
  for a field reached through an unexported name.\<close>

definition canInterface :: "StructField \<Rightarrow> bool" where
  "canInterface fs = (PkgPath fs = '''')"

text \<open>Lines 270 to 275: the names of the environment variables tried for a field.\<close>

definition envNames :: "string list \<Rightarrow> StructField \<Rightarrow> string list" where
  "envNames prefixes fs =
     (let envName = tagGet (Tag fs) ''env'' in
      if envName = ''''
      then [Join (prefixes @ [Name fs]) ''_'',
            toScreamingSnakeCase (Join (prefixes @ [Name fs]) ''_'')]
      else [envName])"

text \<open>
  Lines 278 to 285, the loop over the names: the first name whose variable is not
  empty is decoded into the field and ends the loop. Beside the field's value and the
  error, the result lists the names that were looked up, in order.
\<close>

fun loadFromEnv ::
  "(string \<Rightarrow> string) \<Rightarrow> decoder \<Rightarrow> string list \<Rightarrow> gotype \<Rightarrow> goval
     \<Rightarrow> goval \<times> string list \<times> error option" where
  "loadFromEnv getenv unm [] ty v = (v, [], None)"
| "loadFromEnv getenv unm (env # envs) ty v =
     (if getenv env \<noteq> ''''
      then (case unm (getenv env) ty v of (v', err) \<Rightarrow> (v', [env], err))
      else (case loadFromEnv getenv unm envs ty v of
              (v', looked, err) \<Rightarrow> (v', env # looked, err)))"

text \<open>Lines 287 to 297: the default and the required check of a blank field.\<close>

definition isBlank :: "gotype \<Rightarrow> goval \<Rightarrow> bool" where
  "isBlank ty v = (v = zeroValue ty)"

definition applyDefault ::
  "decoder \<Rightarrow> StructField \<Rightarrow> gotype \<Rightarrow> goval \<Rightarrow> goval \<times> error option" where
  "applyDefault unm fs ty v =
     (if isBlank ty v
      then (if tagGet (Tag fs) ''default'' \<noteq> ''''
            then unm (tagGet (Tag fs) ''default'') ty v
            else if tagGet (Tag fs) ''required'' = ''true''
            then (v, Some (ErrorNew (Name fs @ '' is required, but blank'')))
            else (v, None))
      else (v, None))"

definition prefix :: "string list \<Rightarrow> StructField \<Rightarrow> string list" where
  "prefix prefixes fs =
     (if Anonymous fs \<and> tagGet (Tag fs) ''anonymous'' = ''true'' then prefixes
      else prefixes @ [Name fs])"

text \<open>\<^verbatim>\<open>fmt.Sprint(i)\<close> of a slice index: its decimal digits.\<close>

fun Sprint :: "nat \<Rightarrow> string" where
  "Sprint n = (if n < 10 then [char_of (48 + n)]
               else Sprint (n div 10) @ [char_of (48 + n mod 10)])"

text \<open>
  The result of a pass over (a part of) the target: the value after the pass, the names
  of the environment variables looked up, in order, and the error returned. After an
  error the value is the target as the pass left it.
\<close>

type_synonym 'a outcome = "'a \<times> string list \<times> error option"

text \<open>
  processTags is one recursive function in the source. Its parts are named here:
  \<^item> \<open>processFields\<close> is the loop over the fields of a struct (lines 258 to 322), from
    the field at the head of the list on; a recursive call
    \<^verbatim>\<open>c.processTags(field.Addr().Interface(), ...)\<close> on a struct is this loop on the
    struct's fields, since the head of processTags only dereferences its argument;
  \<^item> \<open>descend\<close> is lines 299 to 321 for one field: the pointers are followed
    (a nil pointer yields the invalid value, which is neither struct nor slice), a
    struct is recursed into, a slice is walked;
  \<^item> \<open>processElems\<close> is the loop over the elements of a slice (lines 310 to 320), and
    \<open>processElem\<close> its body: an element is recursed into when
    \<^verbatim>\<open>reflect.Indirect(field.Index(i)).Kind() == reflect.Struct\<close>, that is when it is a
    struct or a non-nil pointer to a struct.
  A value that does not have the shape of its type (which reflection excludes) is left
  as it is.
\<close>

function processFields ::
    "(string \<Rightarrow> string) \<Rightarrow> decoder \<Rightarrow> string list \<Rightarrow> (StructField \<times> gotype) list \<Rightarrow> goval list
       \<Rightarrow> goval list outcome"
  and descend ::
    "(string \<Rightarrow> string) \<Rightarrow> decoder \<Rightarrow> string list \<Rightarrow> gotype \<Rightarrow> goval \<Rightarrow> goval outcome"
  and processElems ::
    "(string \<Rightarrow> string) \<Rightarrow> decoder \<Rightarrow> string list \<Rightarrow> gotype \<Rightarrow> goval list \<Rightarrow> nat
       \<Rightarrow> goval list outcome"
  and processElem ::
    "(string \<Rightarrow> string) \<Rightarrow> decoder \<Rightarrow> string list \<Rightarrow> gotype \<Rightarrow> goval \<Rightarrow> goval outcome"
where
  "processFields getenv unm prefixes [] vs = (vs, [], None)"
| "processFields getenv unm prefixes ((fs, ty) # fds) [] = ([], [], None)"
| "processFields getenv unm prefixes ((fs, ty) # fds) (v # vs) =
     (if \<not> canInterface fs
      then (case processFields getenv unm prefixes fds vs of
              (vs', looked, err) \<Rightarrow> (v # vs', looked, err))
      else
        (case loadFromEnv getenv unm (envNames prefixes fs) ty v of
           (v1, l1, Some err) \<Rightarrow> (v1 # vs, l1, Some err)
         | (v1, l1, None) \<Rightarrow>
             (case applyDefault unm fs ty v1 of
                (v2, Some err) \<Rightarrow> (v2 # vs, l1, Some err)
              | (v2, None) \<Rightarrow>
                  (case descend getenv unm (prefix prefixes fs) ty v2 of
                     (v3, l3, Some err) \<Rightarrow> (v3 # vs, l1 @ l3, Some err)
                   | (v3, l3, None) \<Rightarrow>
                       (case processFields getenv unm prefixes fds vs of
                          (vs', l4, err) \<Rightarrow> (v3 # vs', l1 @ l3 @ l4, err))))))"
| "descend getenv unm prefixes (TPtr t) v =
     (case v of
        VPtr (Some x) \<Rightarrow>
          (case descend getenv unm prefixes t x of
             (x', looked, err) \<Rightarrow> (VPtr (Some x'), looked, err))
      | _ \<Rightarrow> (v, [], None))"
| "descend getenv unm prefixes (TStruct fds) v =
     (case v of
        VStruct vs \<Rightarrow>
          (case processFields getenv unm prefixes fds vs of
             (vs', looked, err) \<Rightarrow> (VStruct vs', looked, err))
      | _ \<Rightarrow> (v, [], None))"
| "descend getenv unm prefixes (TSlice t) v =
     (case v of
        VSlice (Some xs) \<Rightarrow>
          (case processElems getenv unm prefixes t xs 0 of
             (xs', looked, err) \<Rightarrow> (VSlice (Some xs'), looked, err))
      | _ \<Rightarrow> (v, [], None))"
| "descend getenv unm prefixes TBool v = (v, [], None)"
| "descend getenv unm prefixes TInt v = (v, [], None)"
| "descend getenv unm prefixes TString v = (v, [], None)"
| "processElems getenv unm prefixes t [] i = ([], [], None)"
| "processElems getenv unm prefixes t (x # xs) i =
     (case processElem getenv unm (prefixes @ [Sprint i]) t x of
        (x', l1, Some err) \<Rightarrow> (x' # xs, l1, Some err)
      | (x', l1, None) \<Rightarrow>
          (case processElems getenv unm prefixes t xs (Suc i) of
             (xs', l2, err) \<Rightarrow> (x' # xs', l1 @ l2, err)))"
| "processElem getenv unm prefixes t x =
     (case t of
        TStruct fds \<Rightarrow>
          (case x of
             VStruct vs \<Rightarrow>
               (case processFields getenv unm prefixes fds vs of
                  (vs', looked, err) \<Rightarrow> (VStruct vs', looked, err))
           | _ \<Rightarrow> (x, [], None))
      | TPtr (TStruct fds) \<Rightarrow>
          (case x of
             VPtr (Some (VStruct vs)) \<Rightarrow>
               (case processFields getenv unm prefixes fds vs of
                  (vs', looked, err) \<Rightarrow> (VPtr (Some (VStruct vs')), looked, err))
           | _ \<Rightarrow> (x, [], None))
      | _ \<Rightarrow> (x, [], None))"
  by pat_completeness auto
termination
  by (relation "inv_image (less_than <*lex*> less_than)
     (\<lambda>x. case x of
        Inl (Inl (g, u, p, fds, vs)) \<Rightarrow> (size_list (size_prod (\<lambda>_. 0) size) fds, 0)
      | Inl (Inr (g, u, p, t, v)) \<Rightarrow> (size t, 0)
      | Inr (Inl (g, u, p, t, xs, i)) \<Rightarrow> (size t, Suc (length xs))
      | Inr (Inr (g, u, p, t, x)) \<Rightarrow> (size t, 0))")
     auto

text \<open>
  The head of processTags (lines 246 to 255): \<^verbatim>\<open>reflect.Indirect\<close> and the loop
  follow the pointers; a nil pointer on the way leaves the invalid value, whose kind is
  not struct. \<open>addr\<close> tells whether the value reached is addressable, as everything
  behind a pointer is: the fields of a struct passed by value fail
  \<^verbatim>\<open>field.CanAddr()\<close> and are all skipped.
\<close>

fun processTagsAt ::
  "(string \<Rightarrow> string) \<Rightarrow> decoder \<Rightarrow> string list \<Rightarrow> bool \<Rightarrow> gotype \<Rightarrow> goval \<Rightarrow> goval outcome" where
  "processTagsAt getenv unm prefixes addr (TPtr t) v =
     (case v of
        VPtr (Some x) \<Rightarrow>
          (case processTagsAt getenv unm prefixes True t x of
             (x', looked, err) \<Rightarrow> (VPtr (Some x'), looked, err))
      | _ \<Rightarrow> (v, [], Some (ErrorNew ''expected struct but got invalid'')))"
| "processTagsAt getenv unm prefixes addr (TStruct fds) v =
     (case v of
        VStruct vs \<Rightarrow>
          (if addr
           then (case processFields getenv unm prefixes fds vs of
                   (vs', looked, err) \<Rightarrow> (VStruct vs', looked, err))
           else (v, [], None))
      | _ \<Rightarrow> (v, [], None))"
| "processTagsAt getenv unm prefixes addr t v =
     (v, [], Some (ErrorNew (''expected struct but got '' @ kindString t)))"

definition processTags ::
  "(string \<Rightarrow> string) \<Rightarrow> decoder \<Rightarrow> gotype \<Rightarrow> goval \<Rightarrow> string list \<Rightarrow> goval outcome" where
  "processTags getenv unm ty v prefixes = processTagsAt getenv unm prefixes False ty v"

text \<open>
  The steps of the loop body for one interfaceable field, lines 270 to 321: the
  environment, the default and the required check, the recursion.
\<close>

definition processField ::
  "(string \<Rightarrow> string) \<Rightarrow> decoder \<Rightarrow> string list \<Rightarrow> StructField \<Rightarrow> gotype \<Rightarrow> goval
     \<Rightarrow> goval outcome" where
  "processField getenv unm prefixes fs ty v =
     (case loadFromEnv getenv unm (envNames prefixes fs) ty v of
        (v1, l1, Some err) \<Rightarrow> (v1, l1, Some err)
      | (v1, l1, None) \<Rightarrow>
          (case applyDefault unm fs ty v1 of
             (v2, Some err) \<Rightarrow> (v2, l1, Some err)
           | (v2, None) \<Rightarrow>
               (case descend getenv unm (prefix prefixes fs) ty v2 of
                  (v3, l3, err) \<Rightarrow> (v3, l1 @ l3, err))))"

section \<open>Reading the files (utils.go) and Load (configor.go)\<close>

text \<open>
  The collaborators of the package: \<^verbatim>\<open>ioutil.ReadFile\<close>, \<^verbatim>\<open>yaml.Unmarshal\<close> and
  \<^verbatim>\<open>yaml.UnmarshalStrict\<close>, \<^verbatim>\<open>toml.Decode\<close> (which also answers with the keys of
  \<^verbatim>\<open>metadata.Undecoded()\<close>), and \<^verbatim>\<open>json.Decoder.Decode\<close>, whose first argument
  tells whether \<^verbatim>\<open>DisallowUnknownFields\<close> was called.
\<close>

record library =
  ReadFile :: "string \<Rightarrow> error + string"
  yamlUnmarshal :: decoder
  yamlUnmarshalStrict :: decoder
  tomlDecode :: "string \<Rightarrow> gotype \<Rightarrow> goval \<Rightarrow> goval \<times> string list \<times> error option"
  jsonDecode :: "bool \<Rightarrow> decoder"

definition unmarshalToml ::
  "library \<Rightarrow> string \<Rightarrow> gotype \<Rightarrow> goval \<Rightarrow> bool \<Rightarrow> goval \<times> error option" where
  "unmarshalToml lib data ty v errorOnUnmatchedKeys =
     (case tomlDecode lib data ty v of
        (v', undecoded, err) \<Rightarrow>
          (if err = None \<and> length undecoded > 0 \<and> errorOnUnmatchedKeys
           then (v', Some (UnmatchedTomlKeysError undecoded))
           else (v', err)))"

definition unmarshalJSON ::
  "library \<Rightarrow> string \<Rightarrow> gotype \<Rightarrow> goval \<Rightarrow> bool \<Rightarrow> goval \<times> error option" where
  "unmarshalJSON lib data ty v errorOnUnmatchedKeys =
     (case jsonDecode lib errorOnUnmatchedKeys data ty v of
        (v', err) \<Rightarrow>
          (if err \<noteq> None \<and> err \<noteq> Some EOF then (v', err) else (v', None)))"

definition UnmarshalFile ::
  "library \<Rightarrow> gotype \<Rightarrow> goval \<Rightarrow> string \<Rightarrow> bool \<Rightarrow> goval \<times> error option" where
  "UnmarshalFile lib ty v file errorOnUnmatchedKeys =
     (case ReadFile lib file of
        Inl err \<Rightarrow> (v, Some err)
      | Inr data \<Rightarrow>
          (if HasSuffix file ''.yaml'' \<or> HasSuffix file ''.yml''
           then (if errorOnUnmatchedKeys then yamlUnmarshalStrict lib data ty v
                 else yamlUnmarshal lib data ty v)
           else if HasSuffix file ''.toml''
           then unmarshalToml lib data ty v errorOnUnmatchedKeys
           else if HasSuffix file ''.json''
           then unmarshalJSON lib data ty v errorOnUnmatchedKeys
           else (v, Some (ErrorNew ''not a yaml, json or toml file''))))"

text \<open>The loop of Load over the resolved files: the first error ends it.\<close>

fun unmarshalFiles ::
  "library \<Rightarrow> bool \<Rightarrow> gotype \<Rightarrow> goval \<Rightarrow> string list \<Rightarrow> goval \<times> error option" where
  "unmarshalFiles lib strict ty v [] = (v, None)"
| "unmarshalFiles lib strict ty v (file # files) =
     (case UnmarshalFile lib ty v file strict of
        (v', Some err) \<Rightarrow> (v', Some err)
      | (v', None) \<Rightarrow> unmarshalFiles lib strict ty v' files)"

text \<open>
  Load. \<^verbatim>\<open>reflect.Indirect(reflect.ValueOf(config)).CanAddr()\<close> holds exactly when
  \<open>config\<close> is a non-nil pointer. The text of the error for the other case prints the
  value with \<^verbatim>\<open>%v\<close>; it is kept abstract as an \<open>External\<close> message.
\<close>

definition canAddr :: "gotype \<Rightarrow> goval \<Rightarrow> bool" where
  "canAddr ty v = (case (ty, v) of (TPtr t, VPtr (Some x)) \<Rightarrow> True | _ \<Rightarrow> False)"

definition Load ::
  "Config \<Rightarrow> process \<Rightarrow> library \<Rightarrow> gotype \<Rightarrow> goval \<Rightarrow> string list \<Rightarrow> goval outcome" where
  "Load c p lib ty v files =
     (if \<not> canAddr ty v then (v, [], Some (External ''Config should be addressable''))
      else
        (case unmarshalFiles lib (ErrorOnUnmatchedKeys c) ty v
                (getConfigurationFiles c p files) of
           (v', Some err) \<Rightarrow> (v', [], Some err)
         | (v', None) \<Rightarrow>
             (let prefix = GetEnvironmentPrefix c p in
              if prefix = '''' then processTags (Getenv p) (yamlUnmarshal lib) ty v' []
              else processTags (Getenv p) (yamlUnmarshal lib) ty v' [prefix])))"

section \<open>Predicates on targets\<close>



text \<open>
  A field's tags are satisfied when its default literal, if it has one, is accepted by
  the decoder for the blank field, and when, having none, it is not required.
  \<open>defaultsOK\<close> asks this of every field of a type, at every depth.
\<close>

definition defaultSatisfied :: "decoder \<Rightarrow> StructField \<Rightarrow> gotype \<Rightarrow> bool" where
  "defaultSatisfied unm fs t =
     (if tagGet (Tag fs) ''default'' \<noteq> ''''
      then snd (unm (tagGet (Tag fs) ''default'') t (zeroValue t)) = None
      else tagGet (Tag fs) ''required'' \<noteq> ''true'')"

function defaultsOK :: "decoder \<Rightarrow> gotype \<Rightarrow> bool"
  and fieldsDefaultsOK :: "decoder \<Rightarrow> (StructField \<times> gotype) list \<Rightarrow> bool" where
  "defaultsOK unm TBool = True"
| "defaultsOK unm TInt = True"
| "defaultsOK unm TString = True"
| "defaultsOK unm (TPtr t) = defaultsOK unm t"
| "defaultsOK unm (TSlice t) = defaultsOK unm t"
| "defaultsOK unm (TStruct fds) = fieldsDefaultsOK unm fds"
| "fieldsDefaultsOK unm [] = True"
| "fieldsDefaultsOK unm ((fs, t) # fds) =
     (defaultSatisfied unm fs t \<and> defaultsOK unm t \<and> fieldsDefaultsOK unm fds)"
  by pat_completeness auto
termination
  by (relation "measure (\<lambda>x. case x of Inl (u, t) \<Rightarrow> size t
                                 | Inr (u, fds) \<Rightarrow> size_list (size_prod (\<lambda>_. 0) size) fds)")
     auto

text \<open>
  A pass that looked up the names \<open>looked\<close> and returned the error \<open>e\<close> failed on an
  environment variable when \<open>e\<close> is what the decoder returned for the value of the
  variable looked up last.
\<close>

definition envFailure :: "(string \<Rightarrow> string) \<Rightarrow> decoder \<Rightarrow> string list \<Rightarrow> error \<Rightarrow> bool" where
  "envFailure getenv unm looked e =
     (looked \<noteq> [] \<and> getenv (last looked) \<noteq> []
      \<and> (\<exists>ty v. snd (unm (getenv (last looked)) ty v) = Some e))"

text \<open>An outcome fails on an environment variable only: it is a success or such a
  failure.\<close>

definition envFailureOnly :: "(string \<Rightarrow> string) \<Rightarrow> decoder \<Rightarrow> 'a outcome \<Rightarrow> bool" where
  "envFailureOnly getenv unm r =
     (case snd (snd r) of None \<Rightarrow> True | Some e \<Rightarrow> envFailure getenv unm (fst (snd r)) e)"


section \<open>Concrete collaborators and targets\<close>

text \<open>
  A decoder of plain scalars, for evaluating the binder on concrete targets: a decimal
  numeral is decoded into an int field, a word into a string field, \<^verbatim>\<open>true\<close> and
  \<^verbatim>\<open>false\<close> into a bool field; anything else is refused and leaves the target as it
  was. On these literals it answers as \<^verbatim>\<open>yaml.Unmarshal\<close> does.
\<close>

definition parseDecimal :: "string \<Rightarrow> int option" where
  "parseDecimal s =
     (if s \<noteq> [] \<and> list_all isDigit s
      then Some (int (foldl (\<lambda>n c. 10 * n + ((of_char c :: nat) - 48)) 0 s))
      else None)"

definition plainParse :: "string \<Rightarrow> gotype \<Rightarrow> error + goval" where
  "plainParse s ty =
     (case ty of
        TInt \<Rightarrow>
          (case parseDecimal s of
             Some n \<Rightarrow> Inr (VInt n)
           | None \<Rightarrow> Inl (External ''cannot unmarshal into int''))
      | TString \<Rightarrow> Inr (VString s)
      | TBool \<Rightarrow>
          (if s = ''true'' then Inr (VBool True)
           else if s = ''false'' then Inr (VBool False)
           else Inl (External ''cannot unmarshal into bool''))
      | _ \<Rightarrow> Inl (External ''not a scalar''))"

definition plainScalar :: decoder where
  "plainScalar s ty v =
     (case plainParse s ty of Inl e \<Rightarrow> (v, Some e) | Inr x \<Rightarrow> (x, None))"



text \<open>A filesystem with three regular files, and the environment \<^verbatim>\<open>production\<close>.\<close>

definition threeFiles :: process where
  "threeFiles =
     \<lparr>Getenv = (\<lambda>_. ''''), Args0 = ''app'',
      IsRegular = (\<lambda>f. f \<in> set [''application.yml'', ''application.production.yml'',
                                 ''database.json''])\<rparr>"

definition productionConfig :: Config where
  "productionConfig =
     \<lparr>Environment = ''production'', EnvironmentPrefix = '''', ErrorOnUnmatchedKeys = False\<rparr>"

text \<open>An exported, named field with the given tag.\<close>

definition field :: "string \<Rightarrow> (string \<times> string) list \<Rightarrow> StructField" where
  "field n tag = \<lparr>Name = n, PkgPath = '''', Anonymous = False, Tag = tag\<rparr>"

text \<open>The environment in which the listed variables are set and every other one is
  unset.\<close>

definition environ :: "(string \<times> string) list \<Rightarrow> string \<Rightarrow> string" where
  "environ vars name = (case map_of vars name of None \<Rightarrow> '''' | Some v \<Rightarrow> v)"

text \<open>
  The \<^verbatim>\<open>DB\<close> struct of the README, with int for uint:
  \<^verbatim>\<open>Name string; User string `default:"root"`;
  Password string `required:"true" env:"DBPassword"`; Port int `default:"3306"`\<close>.
\<close>

definition dbName :: StructField where
  "dbName = field ''Name'' []"

definition dbUser :: StructField where
  "dbUser = field ''User'' [(''default'', ''root'')]"

definition dbPassword :: StructField where
  "dbPassword = field ''Password'' [(''required'', ''true''), (''env'', ''DBPassword'')]"

definition dbPort :: StructField where
  "dbPort = field ''Port'' [(''default'', ''3306'')]"

definition dbFields :: "(StructField \<times> gotype) list" where
  "dbFields = [(dbName, TString), (dbUser, TString), (dbPassword, TString), (dbPort, TInt)]"

text \<open>The README's \<^verbatim>\<open>type Config struct { Details `anonymous:"true"` }\<close> with
  \<^verbatim>\<open>type Details struct { Description string }\<close>.\<close>

definition detailsField :: StructField where
  "detailsField =
     \<lparr>Name = ''Details'', PkgPath = '''', Anonymous = True,
      Tag = [(''anonymous'', ''true'')]\<rparr>"

definition detailsConfig :: gotype where
  "detailsConfig = TPtr (TStruct [(detailsField, TStruct [(field ''Description'' [], TString)])])"

text \<open>A field that is both required and given the default \<^verbatim>\<open>0\<close>:
  \<^verbatim>\<open>Port int `default:"0" required:"true"`\<close>.\<close>

definition portZeroRequired :: StructField where
  "portZeroRequired = field ''Port'' [(''default'', ''0''), (''required'', ''true'')]"

text \<open>An unexported field, \<^verbatim>\<open>secret string `required:"true" default:"x"`\<close>, of a
  package \<^verbatim>\<open>main\<close>.\<close>

definition secretField :: StructField where
  "secretField =
     \<lparr>Name = ''secret'', PkgPath = ''main'', Anonymous = False,
      Tag = [(''required'', ''true''), (''default'', ''x'')]\<rparr>"

text \<open>A library whose JSON decoder reports end-of-file on empty input, storing
  nothing, as \<^verbatim>\<open>encoding/json\<close> does; the one file it can read is empty.\<close>

definition emptyJSON :: library where
  "emptyJSON =
     \<lparr>ReadFile = (\<lambda>f. if f = ''config.json'' then Inr '''' else Inl (External ''no such file'')),
      yamlUnmarshal = plainScalar,
      yamlUnmarshalStrict = plainScalar,
      tomlDecode = (\<lambda>data ty v. (v, [], Some (External ''toml''))),
      jsonDecode = (\<lambda>strict data ty v.
         if data = '''' then (v, Some EOF) else (v, Some (External ''json'')))\<rparr>"



text \<open>
  The README's \<^verbatim>\<open>Contacts []struct { Name string; Email string `required:"true"` }\<close>,
  followed by a field \<^verbatim>\<open>After string `default:"x"`\<close>.
\<close>

definition contactFields :: "(StructField \<times> gotype) list" where
  "contactFields = [(field ''Name'' [], TString), (field ''Email'' [(''required'', ''true'')], TString)]"

definition contactsConfig :: "(StructField \<times> gotype) list" where
  "contactsConfig =
     [(field ''Contacts'' [], TSlice (TStruct contactFields)),
      (field ''After'' [(''default'', ''x'')], TString)]"

text \<open>A filesystem whose one regular file is \<^verbatim>\<open>config.example.yml\<close>; a filesystem
  that also has \<^verbatim>\<open>config.yml\<close>; and the environment named \<^verbatim>\<open>example\<close>.\<close>

definition exampleOnly :: process where
  "exampleOnly =
     \<lparr>Getenv = (\<lambda>_. ''''), Args0 = ''app'',
      IsRegular = (\<lambda>f. f = ''config.example.yml'')\<rparr>"

definition configAndExample :: process where
  "configAndExample =
     \<lparr>Getenv = (\<lambda>_. ''''), Args0 = ''app'',
      IsRegular = (\<lambda>f. f \<in> set [''config.yml'', ''config.example.yml''])\<rparr>"

definition exampleConfig :: Config where
  "exampleConfig =
     \<lparr>Environment = ''example'', EnvironmentPrefix = '''', ErrorOnUnmatchedKeys = False\<rparr>"

text \<open>An unexported field that is required and has no default,
  \<^verbatim>\<open>token string `required:"true"`\<close>.\<close>

definition tokenField :: StructField where
  "tokenField =
     \<lparr>Name = ''token'', PkgPath = ''main'', Anonymous = False,
      Tag = [(''required'', ''true'')]\<rparr>"

section \<open>Properties of the resolver\<close>

lemma checkCandidate_eq:
  "checkCandidate p env file results = results @
     (if IsRegular p file then [file] else []) @
     (if IsRegular p (envFile file env) then [envFile file env] else []) @
     (if \<not> IsRegular p file \<and> \<not> IsRegular p (envFile file env)
           \<and> IsRegular p (envFile file ''example'')
      then [envFile file ''example''] else [])"
  by (simp add: checkCandidate_def getFilenameWithENVPrefix_def)

lemma checkCandidate_append:
  "checkCandidate p env file results = results @ checkCandidate p env file []"
  by (simp add: checkCandidate_eq)

lemma filesLoop_eq:
  "n \<le> length files \<Longrightarrow>
   filesLoop p env files n results =
     results @ concat (map (\<lambda>f. checkCandidate p env f []) (rev (take n files)))"
proof (induction n arbitrary: results)
  case 0
  then show ?case by simp
next
  case (Suc n)
  then show ?case
    by (simp add: take_Suc_conv_app_nth checkCandidate_append[of _ _ _ "_ @ _"]
        checkCandidate_append[of _ _ _ results])
qed

lemma getConfigurationFiles_concat:
  "getConfigurationFiles c p files =
     concat (map (\<lambda>f. checkCandidate p (GetEnvironment c p) f []) (rev files))"
  by (simp add: getConfigurationFiles_def filesLoop_eq)

lemma rev_split_two:
  assumes "i < j" "j < length xs"
  shows "\<exists>a b d. rev xs = a @ [xs ! j] @ b @ [xs ! i] @ d"
proof -
  define ys where "ys = take j xs"
  have 1: "xs = ys @ [xs ! j] @ drop (Suc j) xs"
    using assms by (simp add: ys_def id_take_nth_drop)
  have li: "i < length ys" using assms by (simp add: ys_def)
  have 3: "ys ! i = xs ! i" using assms by (simp add: ys_def)
  have 2: "ys = take i ys @ [xs ! i] @ drop (Suc i) ys"
    using id_take_nth_drop[OF li] 3 by simp
  have "rev xs = rev (drop (Suc j) xs) @ [xs ! j] @ rev ys"
    by (subst 1) simp
  also have "rev ys = rev (drop (Suc i) ys) @ [xs ! i] @ rev (take i ys)"
    by (subst 2) simp
  finally show ?thesis by blast
qed

lemma extScan_suffix: "\<exists>b. rev rs @ acc = b @ extScan rs acc"
proof (induction rs arbitrary: acc)
  case Nil
  show ?case by simp
next
  case (Cons c rs)
  show ?case
  proof (cases "c = CHR ''/''")
    case True
    then show ?thesis by simp
  next
    case noslash: False
    show ?thesis
    proof (cases "c = CHR ''.''")
      case True
      then show ?thesis by auto
    next
      case False
      with noslash Cons.IH[of "c # acc"] show ?thesis by simp
    qed
  qed
qed

lemma Ext_suffix: "\<exists>b. p = b @ Ext p"
  using extScan_suffix[of "rev p" "[]"] by (simp add: Ext_def)

lemma TrimSuffix_append: "TrimSuffix (b @ e) e = b"
  by (simp add: TrimSuffix_def HasSuffix_def)

lemma envFile_insert:
  "\<exists>b. file = b @ Ext file \<and> envFile file env = b @ ''.'' @ env @ Ext file"
proof -
  obtain b where b: "file = b @ Ext file" using Ext_suffix by blast
  have "TrimSuffix file (Ext file) = b"
    using TrimSuffix_append[of b "Ext file"] b by simp
  then have "envFile file env = b @ ''.'' @ env @ Ext file"
    using b by (auto simp: envFile_def Let_def)
  with b show ?thesis by blast
qed

text \<open>
  C1. The plan of getConfigurationFiles is the concatenation, over the candidates in
  reverse input order, of what each candidate contributes; a candidate contributes at
  most two entries, its base file before its environment file when both are regular
  files; so for two positions \<open>i < j\<close> of the input, the entries of candidate \<open>j\<close>
  stand before the entries of candidate \<open>i\<close> in the plan (and are merged earlier).
\<close>

theorem getConfigurationFiles_reverse_order:
  "getConfigurationFiles c p files =
     concat (map (\<lambda>f. checkCandidate p (GetEnvironment c p) f []) (rev files))
   \<and> (\<forall>f. length (checkCandidate p (GetEnvironment c p) f []) \<le> 2
          \<and> checkCandidate p (GetEnvironment c p) f []
              \<in> {[], [f], [envFile f (GetEnvironment c p)],
                  [f, envFile f (GetEnvironment c p)], [envFile f ''example'']}
          \<and> (IsRegular p f \<and> IsRegular p (envFile f (GetEnvironment c p)) \<longrightarrow>
               checkCandidate p (GetEnvironment c p) f []
                 = [f, envFile f (GetEnvironment c p)]))
   \<and> (\<forall>i j. i < j \<and> j < length files \<longrightarrow>
         (\<exists>a b d. getConfigurationFiles c p files =
            a @ checkCandidate p (GetEnvironment c p) (files ! j) [] @ b
              @ checkCandidate p (GetEnvironment c p) (files ! i) [] @ d))"
proof (intro conjI allI impI)
  show "getConfigurationFiles c p files =
     concat (map (\<lambda>f. checkCandidate p (GetEnvironment c p) f []) (rev files))"
    by (rule getConfigurationFiles_concat)
next
  fix f
  show "length (checkCandidate p (GetEnvironment c p) f []) \<le> 2"
    by (simp add: checkCandidate_eq)
  show "checkCandidate p (GetEnvironment c p) f []
          \<in> {[], [f], [envFile f (GetEnvironment c p)],
              [f, envFile f (GetEnvironment c p)], [envFile f ''example'']}"
    by (simp add: checkCandidate_eq)
  assume "IsRegular p f \<and> IsRegular p (envFile f (GetEnvironment c p))"
  then show "checkCandidate p (GetEnvironment c p) f [] = [f, envFile f (GetEnvironment c p)]"
    by (simp add: checkCandidate_eq)
next
  fix i j
  assume ij: "i < j \<and> j < length files"
  then obtain a b d where "rev files = a @ [files ! j] @ b @ [files ! i] @ d"
    using rev_split_two[of i j files] by blast
  then have "getConfigurationFiles c p files =
      concat (map (\<lambda>f. checkCandidate p (GetEnvironment c p) f []) a)
      @ checkCandidate p (GetEnvironment c p) (files ! j) []
      @ concat (map (\<lambda>f. checkCandidate p (GetEnvironment c p) f []) b)
      @ checkCandidate p (GetEnvironment c p) (files ! i) []
      @ concat (map (\<lambda>f. checkCandidate p (GetEnvironment c p) f []) d)"
    by (simp add: getConfigurationFiles_concat)
  then show "\<exists>a b d. getConfigurationFiles c p files =
            a @ checkCandidate p (GetEnvironment c p) (files ! j) [] @ b
              @ checkCandidate p (GetEnvironment c p) (files ! i) [] @ d"
    by blast
qed

theorem getConfigurationFiles_reverse_order_witness:
  "getConfigurationFiles productionConfig threeFiles [''application.yml'', ''database.json'']
     = [''database.json'', ''application.yml'', ''application.production.yml'']
   \<and> checkCandidate threeFiles ''production'' ''application.yml'' []
     = [''application.yml'', ''application.production.yml'']
   \<and> (\<exists>a b d.
        getConfigurationFiles productionConfig threeFiles [''application.yml'', ''database.json'']
          = a @ checkCandidate threeFiles ''production'' ''database.json'' [] @ b
              @ checkCandidate threeFiles ''production'' ''application.yml'' [] @ d)"
proof -
  let ?files = "[''application.yml'', ''database.json'']"
  have env: "GetEnvironment productionConfig threeFiles = ''production''"
    by (simp add: GetEnvironment_def productionConfig_def)
  have e1: "envFile ''application.yml'' ''production'' = ''application.production.yml''"
    by code_simp
  have reg: "IsRegular threeFiles ''application.yml''
      \<and> IsRegular threeFiles (envFile ''application.yml'' (GetEnvironment productionConfig threeFiles))"
    unfolding env e1 by (simp add: threeFiles_def)
  have ij: "(0::nat) < 1 \<and> 1 < length ?files" by simp
  note ord = getConfigurationFiles_reverse_order[of productionConfig threeFiles ?files]
  have plan: "getConfigurationFiles productionConfig threeFiles ?files
     = [''database.json'', ''application.yml'', ''application.production.yml'']"
    by code_simp
  have pair: "checkCandidate threeFiles ''production'' ''application.yml'' []
     = [''application.yml'', ''application.production.yml'']"
    using ord[THEN conjunct2, THEN conjunct1, rule_format, of "''application.yml''",
        THEN conjunct2, THEN conjunct2, rule_format, OF reg]
    by (simp add: env e1)
  have ex: "\<exists>a b d.
        getConfigurationFiles productionConfig threeFiles ?files
          = a @ checkCandidate threeFiles ''production'' ''database.json'' [] @ b
              @ checkCandidate threeFiles ''production'' ''application.yml'' [] @ d"
    using ord[THEN conjunct2, THEN conjunct2, rule_format, OF ij]
    by (simp add: env)
  from plan pair ex show ?thesis by blast
qed

text \<open>The extension of a path whose last element has a dot starts at the last dot;
  a path whose last element has no dot has no extension.\<close>

lemma extScan_skip:
  "CHR ''/'' \<notin> set xs \<Longrightarrow> CHR ''.'' \<notin> set xs \<Longrightarrow>
   extScan (xs @ rs) acc = extScan rs (rev xs @ acc)"
  by (induction xs arbitrary: acc) auto

lemma Ext_dot:
  assumes "CHR ''/'' \<notin> set e" and "CHR ''.'' \<notin> set e"
  shows "Ext (b @ CHR ''.'' # e) = CHR ''.'' # e"
proof -
  have "Ext (b @ CHR ''.'' # e) = extScan (rev e @ CHR ''.'' # rev b) []"
    by (simp add: Ext_def)
  also have "\<dots> = extScan (CHR ''.'' # rev b) (rev (rev e) @ [])"
    using assms by (intro extScan_skip) simp_all
  finally show ?thesis by simp
qed

lemma Ext_none:
  assumes "CHR ''/'' \<notin> set r" and "CHR ''.'' \<notin> set r" and "d = [] \<or> last d = CHR ''/''"
  shows "Ext (d @ r) = []"
proof -
  have "Ext (d @ r) = extScan (rev r @ rev d) []"
    by (simp add: Ext_def)
  also have "\<dots> = extScan (rev d) (rev (rev r) @ [])"
    using assms(1,2) by (intro extScan_skip) simp_all
  also have "\<dots> = []"
  proof (cases d rule: rev_cases)
    case Nil
    then show ?thesis by simp
  next
    case (snoc d' c)
    with assms(3) show ?thesis by simp
  qed
  finally show ?thesis .
qed

lemma envFile_dot:
  assumes "CHR ''/'' \<notin> set e" and "CHR ''.'' \<notin> set e"
  shows "envFile (b @ CHR ''.'' # e) env = b @ ''.'' @ env @ CHR ''.'' # e"
  using TrimSuffix_append[of b "CHR ''.'' # e"]
  by (simp add: envFile_def Ext_dot[OF assms])

lemma envFile_none:
  assumes "CHR ''/'' \<notin> set r" and "CHR ''.'' \<notin> set r" and "d = [] \<or> last d = CHR ''/''"
  shows "envFile (d @ r) env = d @ r @ ''.'' @ env"
  by (simp add: envFile_def Ext_none[OF assms])

lemma envFile_decomp:
  "\<exists>b. path = b @ Ext path \<and> (\<forall>env. envFile path env = b @ ''.'' @ env @ Ext path)"
proof -
  define e where "e = Ext path"
  obtain b where b: "path = b @ e" using Ext_suffix[of path] unfolding e_def by blast
  have ef: "\<And>env. envFile path env =
      (if e = [] then path @ ''.'' @ env else TrimSuffix path e @ ''.'' @ env @ e)"
    by (simp add: envFile_def Let_def e_def)
  have "\<And>env. envFile path env = b @ ''.'' @ env @ e"
    unfolding ef unfolding b using TrimSuffix_append[of b e] by simp
  with b show ?thesis unfolding e_def by blast
qed

lemma envFile_not_self: "envFile path env \<noteq> path"
proof
  assume eq: "envFile path env = path"
  obtain b where b: "path = b @ Ext path"
    and f: "envFile path env = b @ ''.'' @ env @ Ext path"
    using envFile_decomp[of path] by blast
  have "length (envFile path env) = length b + 1 + length env + length (Ext path)"
    by (subst f) simp
  moreover have "length path = length b + length (Ext path)"
    by (subst b) simp
  ultimately show False using eq by simp
qed

lemma envFile_same_iff: "envFile path e1 = envFile path e2 \<longleftrightarrow> e1 = e2"
proof -
  obtain b where f: "\<forall>env. envFile path env = b @ ''.'' @ env @ Ext path"
    using envFile_decomp[of path] by blast
  show ?thesis by (simp add: f)
qed

lemma example_variant_member:
  "envFile path ''example'' \<in> set (checkCandidate p env path []) \<longleftrightarrow>
     IsRegular p (envFile path ''example'')
     \<and> (env = ''example'' \<or> (\<not> IsRegular p path \<and> \<not> IsRegular p (envFile path env)))"
proof -
  define x where "x = envFile path ''example''"
  define y where "y = envFile path env"
  have ne: "x \<noteq> path" unfolding x_def by (rule envFile_not_self)
  have same: "x = y \<longleftrightarrow> env = ''example''"
    unfolding x_def y_def using envFile_same_iff[of path "''example''" env] by blast
  have c: "checkCandidate p env path [] =
      (if IsRegular p path then [path] else []) @ (if IsRegular p y then [y] else []) @
      (if \<not> IsRegular p path \<and> \<not> IsRegular p y \<and> IsRegular p x then [x] else [])"
    unfolding x_def y_def by (simp add: checkCandidate_eq)
  have "x \<in> set (checkCandidate p env path []) \<longleftrightarrow>
      IsRegular p x \<and> (x = y \<or> (\<not> IsRegular p path \<and> \<not> IsRegular p y))"
    unfolding c using ne by (cases "x = y") auto
  then show ?thesis unfolding same unfolding x_def y_def .
qed

lemma checkCandidate_distinct: "distinct (checkCandidate p env path [])"
proof -
  define y where "y = envFile path env"
  have ne: "y \<noteq> path" unfolding y_def by (rule envFile_not_self)
  have c: "checkCandidate p env path [] =
      (if IsRegular p path then [path] else []) @ (if IsRegular p y then [y] else []) @
      (if \<not> IsRegular p path \<and> \<not> IsRegular p y \<and> IsRegular p (envFile path ''example'')
       then [envFile path ''example''] else [])"
    unfolding y_def by (simp add: checkCandidate_eq)
  show ?thesis unfolding c using ne by auto
qed

text \<open>
  C5, as the code has it. What one candidate contributes, written out: the literal
  path when it is a regular file, then the environment variant when it is one, and
  then the \<^verbatim>\<open>.example\<close> variant exactly when neither of the two is a regular file and
  the \<^verbatim>\<open>.example\<close> variant is one. So the \<^verbatim>\<open>.example\<close> variant is among the entries
  of a candidate, and then once, exactly when it is a regular file and either neither
  the literal path nor the environment variant is one, or the environment is itself
  named \<^verbatim>\<open>example\<close> (the variant is then the environment variant). When none of the
  three is a regular file the candidate contributes nothing, and the plan is still
  returned. The variant of a path is the path with \<^verbatim>\<open>.example\<close> put before the
  extension, which starts at the last dot of the last element, or at the end of the
  path when the last element has no dot.
\<close>

theorem getConfigurationFiles_example_variant:
  "getConfigurationFiles c p files =
     concat (map
       (\<lambda>file.
          (if IsRegular p file then [file] else []) @
          (if IsRegular p (envFile file (GetEnvironment c p))
           then [envFile file (GetEnvironment c p)] else []) @
          (if \<not> IsRegular p file \<and> \<not> IsRegular p (envFile file (GetEnvironment c p))
                \<and> IsRegular p (envFile file ''example'')
           then [envFile file ''example''] else []))
       (rev files))
   \<and> (\<forall>file.
         envFile file ''example'' \<in> set (checkCandidate p (GetEnvironment c p) file []) \<longleftrightarrow>
         IsRegular p (envFile file ''example'')
         \<and> (GetEnvironment c p = ''example''
              \<or> (\<not> IsRegular p file \<and> \<not> IsRegular p (envFile file (GetEnvironment c p)))))
   \<and> (\<forall>file. distinct (checkCandidate p (GetEnvironment c p) file []))
   \<and> (\<forall>file.
         \<not> IsRegular p file \<and> \<not> IsRegular p (envFile file (GetEnvironment c p))
           \<and> \<not> IsRegular p (envFile file ''example'') \<longrightarrow>
         checkCandidate p (GetEnvironment c p) file [] = [])
   \<and> (\<forall>b e env. CHR ''/'' \<notin> set e \<and> CHR ''.'' \<notin> set e \<longrightarrow>
         envFile (b @ CHR ''.'' # e) env = b @ ''.'' @ env @ CHR ''.'' # e)
   \<and> (\<forall>d r env. CHR ''/'' \<notin> set r \<and> CHR ''.'' \<notin> set r \<and> (d = [] \<or> last d = CHR ''/'') \<longrightarrow>
         envFile (d @ r) env = d @ r @ ''.'' @ env)"
proof (intro conjI allI impI)
  show "getConfigurationFiles c p files =
     concat (map
       (\<lambda>file.
          (if IsRegular p file then [file] else []) @
          (if IsRegular p (envFile file (GetEnvironment c p))
           then [envFile file (GetEnvironment c p)] else []) @
          (if \<not> IsRegular p file \<and> \<not> IsRegular p (envFile file (GetEnvironment c p))
                \<and> IsRegular p (envFile file ''example'')
           then [envFile file ''example''] else []))
       (rev files))"
    by (simp add: getConfigurationFiles_concat checkCandidate_eq)
next
  fix path
  show "envFile path ''example'' \<in> set (checkCandidate p (GetEnvironment c p) path []) \<longleftrightarrow>
         IsRegular p (envFile path ''example'')
         \<and> (GetEnvironment c p = ''example''
              \<or> (\<not> IsRegular p path \<and> \<not> IsRegular p (envFile path (GetEnvironment c p))))"
    by (rule example_variant_member)
next
  fix path
  show "distinct (checkCandidate p (GetEnvironment c p) path [])"
    by (rule checkCandidate_distinct)
next
  fix path
  assume "\<not> IsRegular p path \<and> \<not> IsRegular p (envFile path (GetEnvironment c p))
           \<and> \<not> IsRegular p (envFile path ''example'')"
  then show "checkCandidate p (GetEnvironment c p) path [] = []"
    by (simp add: checkCandidate_eq)
next
  fix b e env
  assume "CHR ''/'' \<notin> set e \<and> CHR ''.'' \<notin> set e"
  then show "envFile (b @ CHR ''.'' # e) env = b @ ''.'' @ env @ CHR ''.'' # e"
    by (simp add: envFile_dot)
next
  fix d r env
  assume "CHR ''/'' \<notin> set r \<and> CHR ''.'' \<notin> set r \<and> (d = [] \<or> last d = CHR ''/'')"
  then show "envFile (d @ r) env = d @ r @ ''.'' @ env"
    by (simp add: envFile_none)
qed

theorem getConfigurationFiles_example_variant_witness:
  "getConfigurationFiles productionConfig exampleOnly [''config.yml''] = [''config.example.yml'']
   \<and> envFile ''config.yml'' ''example'' = ''config.example.yml''
   \<and> envFile ''dir.d/config'' ''example'' = ''dir.d/config.example''
   \<and> envFile ''config.yml'' ''example''
        \<in> set (checkCandidate exampleOnly ''production'' ''config.yml'' [])
   \<and> checkCandidate exampleOnly ''production'' ''missing.yml'' [] = []"
proof -
  note t = getConfigurationFiles_example_variant[of productionConfig exampleOnly "[''config.yml'']"]
  have env: "GetEnvironment productionConfig exampleOnly = ''production''"
    by (simp add: GetEnvironment_def productionConfig_def)
  have f1: "CHR ''/'' \<notin> set ''yml'' \<and> CHR ''.'' \<notin> set ''yml''" by simp
  have e1: "envFile ''config.yml'' ''example'' = ''config.example.yml''"
    using t[THEN conjunct2, THEN conjunct2, THEN conjunct2, THEN conjunct2, THEN conjunct1,
        rule_format, OF f1, of "''config''" "''example''"]
    by simp
  have e1p: "envFile ''config.yml'' ''production'' = ''config.production.yml''"
    using t[THEN conjunct2, THEN conjunct2, THEN conjunct2, THEN conjunct2, THEN conjunct1,
        rule_format, OF f1, of "''config''" "''production''"]
    by simp
  have f2: "CHR ''/'' \<notin> set ''config'' \<and> CHR ''.'' \<notin> set ''config''
      \<and> (''dir.d/'' = [] \<or> last ''dir.d/'' = CHR ''/'')" by simp
  have e2: "envFile ''dir.d/config'' ''example'' = ''dir.d/config.example''"
    using t[THEN conjunct2, THEN conjunct2, THEN conjunct2, THEN conjunct2, THEN conjunct2,
        rule_format, OF f2, of "''example''"]
    by simp
  have m: "IsRegular exampleOnly (envFile ''config.yml'' ''example'')
      \<and> (GetEnvironment productionConfig exampleOnly = ''example''
          \<or> (\<not> IsRegular exampleOnly ''config.yml''
              \<and> \<not> IsRegular exampleOnly (envFile ''config.yml''
                    (GetEnvironment productionConfig exampleOnly))))"
    unfolding env e1 e1p by (simp add: exampleOnly_def)
  have mem: "envFile ''config.yml'' ''example''
        \<in> set (checkCandidate exampleOnly ''production'' ''config.yml'' [])"
    using t[THEN conjunct2, THEN conjunct1, rule_format, of "''config.yml''"] m
    unfolding env by blast
  have none: "\<not> IsRegular exampleOnly ''missing.yml''
      \<and> \<not> IsRegular exampleOnly (envFile ''missing.yml''
            (GetEnvironment productionConfig exampleOnly))
      \<and> \<not> IsRegular exampleOnly (envFile ''missing.yml'' ''example'')"
    by code_simp
  have empty: "checkCandidate exampleOnly ''production'' ''missing.yml'' [] = []"
    using t[THEN conjunct2, THEN conjunct2, THEN conjunct2, THEN conjunct1, rule_format,
        OF none]
    unfolding env .
  have plan: "getConfigurationFiles productionConfig exampleOnly [''config.yml'']
      = [''config.example.yml'']"
    by code_simp
  from plan e1 e2 mem empty show ?thesis by blast
qed

text \<open>
  Where the claim as written fails: the environment named \<^verbatim>\<open>example\<close>, with
  \<^verbatim>\<open>config.yml\<close> and \<^verbatim>\<open>config.example.yml\<close> both regular files. The literal path
  is a regular file, and the \<^verbatim>\<open>.example\<close> variant, being the environment variant, is
  appended to the plan.
\<close>

theorem environment_named_example_counterexample:
  "GetEnvironment exampleConfig configAndExample = ''example''
   \<and> IsRegular configAndExample ''config.yml''
   \<and> envFile ''config.yml'' ''example'' = ''config.example.yml''
   \<and> getConfigurationFiles exampleConfig configAndExample [''config.yml'']
       = [''config.yml'', ''config.example.yml'']"
  by code_simp

section \<open>Properties of toScreamingSnakeCase\<close>

text \<open>
  C8. toScreamingSnakeCase maps \<^verbatim>\<open>DBName\<close> to \<^verbatim>\<open>DB_NAME\<close>, \<^verbatim>\<open>APPName\<close> to
  \<^verbatim>\<open>APP_NAME\<close> and \<^verbatim>\<open>already-kebab\<close> to \<^verbatim>\<open>ALREADY_KEBAB\<close>.
\<close>

theorem toScreamingSnakeCase_examples:
  "toScreamingSnakeCase ''DBName'' = ''DB_NAME''
   \<and> toScreamingSnakeCase ''APPName'' = ''APP_NAME''
   \<and> toScreamingSnakeCase ''already-kebab'' = ''ALREADY_KEBAB''"
  by code_simp

section \<open>Properties of the binder\<close>

subsection \<open>The loop over the fields\<close>

lemma processFields_length:
  "length (fst (processFields g u p fds vs)) = length vs"
proof (induction fds arbitrary: vs)
  case Nil
  show ?case by simp
next
  case (Cons fd fds)
  obtain fs ty where fd: "fd = (fs, ty)" by (cases fd)
  show ?case
  proof (cases vs)
    case Nil
    then show ?thesis by (simp add: fd)
  next
    case (Cons v vs')
    with Cons.IH[of vs'] show ?thesis
      by (auto simp: fd split: prod.splits option.splits)
  qed
qed

text \<open>The pass over a struct is the pass over its first fields followed, unless that
  failed, by the pass over the other fields.\<close>

lemma processFields_append:
  "length vs1 = length fds1 \<Longrightarrow>
   processFields g u p (fds1 @ fds2) (vs1 @ vs2) =
     (case processFields g u p fds1 vs1 of
        (vs1', l1, Some e) \<Rightarrow> (vs1' @ vs2, l1, Some e)
      | (vs1', l1, None) \<Rightarrow>
          (case processFields g u p fds2 vs2 of
             (vs2', l2, e) \<Rightarrow> (vs1' @ vs2', l1 @ l2, e)))"
proof (induction fds1 arbitrary: vs1)
  case Nil
  then show ?case by (simp split: prod.splits)
next
  case (Cons fd fds1)
  obtain fs ty where fd: "fd = (fs, ty)" by (cases fd)
  from Cons.prems obtain v vs1' where vs1: "vs1 = v # vs1'" "length vs1' = length fds1"
    by (cases vs1) auto
  from Cons.IH[OF vs1(2)] show ?case
    by (auto simp: fd vs1 split: prod.splits option.splits)
qed

lemma loadFromEnv_find:
  "loadFromEnv g u names ty v =
     (case find (\<lambda>n. g n \<noteq> '''') names of
        None \<Rightarrow> (v, names, None)
      | Some n \<Rightarrow>
          (fst (u (g n) ty v), takeWhile (\<lambda>n. g n = '''') names @ [n], snd (u (g n) ty v)))"
  by (induction names) (auto split: prod.splits option.splits)

text \<open>
  C9. A field that cannot be interfaced (an unexported field), at any position of a
  struct, is passed over: the pass does what it does on the struct without the field
  (the same lookups, the same error, the same values of the other fields) and the
  field keeps its value, whatever its tags and its type are.
\<close>

theorem processFields_skips_unexported:
  "\<not> canInterface fs \<Longrightarrow> length vs1 = length fds1 \<Longrightarrow>
   processFields getenv unm prefixes (fds1 @ (fs, ty) # fds2) (vs1 @ v # vs2) =
     (case processFields getenv unm prefixes (fds1 @ fds2) (vs1 @ vs2) of
        (vs', looked, err) \<Rightarrow>
          (take (length fds1) vs' @ v # drop (length fds1) vs', looked, err))"
proof -
  assume a: "\<not> canInterface fs" "length vs1 = length fds1"
  have len: "length (fst (processFields getenv unm prefixes fds1 vs1)) = length fds1"
    using processFields_length[of getenv unm prefixes fds1 vs1] a by simp
  show ?thesis using len a
    by (auto simp: processFields_append split: prod.splits option.splits)
qed

theorem processFields_skips_unexported_witness:
  "\<not> canInterface secretField
   \<and> processFields (environ [(''secret'', ''s''), (''SECRET'', ''s'')]) plainScalar []
        ([(dbUser, TString)] @ (secretField, TString) # [(dbPort, TInt)])
        ([VString ''''] @ VString '''' # [VInt 0])
      = ([VString ''root'', VString '''', VInt 3306],
         [''User'', ''USER'', ''Port'', ''PORT''], None)"
proof -
  have h1: "\<not> canInterface secretField"
    by (simp add: canInterface_def secretField_def)
  have h2: "length [VString ''''] = length [(dbUser, TString)]" by simp
  have without: "processFields (environ [(''secret'', ''s''), (''SECRET'', ''s'')]) plainScalar []
        ([(dbUser, TString)] @ [(dbPort, TInt)]) ([VString ''''] @ [VInt 0])
      = ([VString ''root'', VInt 3306], [''User'', ''USER'', ''Port'', ''PORT''], None)"
    by code_simp
  show ?thesis
    using processFields_skips_unexported[OF h1 h2,
        of "environ [(''secret'', ''s''), (''SECRET'', ''s'')]" plainScalar "[]" TString
           "[(dbPort, TInt)]" "VString ''''" "[VInt 0]"] h1
    by (simp only: without) simp
qed

text \<open>
  C4. The names tried for a field: with an \<^verbatim>\<open>env\<close> tag, that name alone; without
  one, the qualified name joined with \<^verbatim>\<open>_\<close> and then its SCREAMING_SNAKE_CASE form.
  The names are looked up in this order up to the first one whose variable is not
  empty, and the value of that variable is what is decoded into the field; the pass
  over an interfaceable field begins with exactly these lookups.
\<close>

theorem envNames_candidates_in_order:
  "(tagGet (Tag fs) ''env'' \<noteq> '''' \<longrightarrow> envNames prefixes fs = [tagGet (Tag fs) ''env''])
   \<and> (tagGet (Tag fs) ''env'' = '''' \<longrightarrow>
        envNames prefixes fs =
          [Join (prefixes @ [Name fs]) ''_'',
           toScreamingSnakeCase (Join (prefixes @ [Name fs]) ''_'')])
   \<and> loadFromEnv getenv unm names ty v =
        (case find (\<lambda>n. getenv n \<noteq> '''') names of
           None \<Rightarrow> (v, names, None)
         | Some n \<Rightarrow>
             (fst (unm (getenv n) ty v),
              takeWhile (\<lambda>n. getenv n = '''') names @ [n],
              snd (unm (getenv n) ty v)))
   \<and> (canInterface fs \<longrightarrow>
        (\<exists>rest. fst (snd (processFields getenv unm prefixes ((fs, ty) # fds) (v # vs)))
           = fst (snd (loadFromEnv getenv unm (envNames prefixes fs) ty v)) @ rest))"
proof (intro conjI impI)
  show "loadFromEnv getenv unm names ty v =
        (case find (\<lambda>n. getenv n \<noteq> '''') names of
           None \<Rightarrow> (v, names, None)
         | Some n \<Rightarrow>
             (fst (unm (getenv n) ty v),
              takeWhile (\<lambda>n. getenv n = '''') names @ [n],
              snd (unm (getenv n) ty v)))"
    by (rule loadFromEnv_find)
next
  assume "canInterface fs"
  then show "\<exists>rest. fst (snd (processFields getenv unm prefixes ((fs, ty) # fds) (v # vs)))
           = fst (snd (loadFromEnv getenv unm (envNames prefixes fs) ty v)) @ rest"
    by (auto split: prod.splits option.splits)
qed (simp_all add: envNames_def)

theorem envNames_candidates_in_order_witness:
  "envNames [''DB''] dbPassword = [''DBPassword'']
   \<and> envNames [''DB''] dbName = [''DB_Name'', ''DB_NAME'']
   \<and> loadFromEnv (environ [(''DB_NAME'', ''test'')]) plainScalar [''DB_Name'', ''DB_NAME'']
        TString (VString '''')
      = (VString ''test'', [''DB_Name'', ''DB_NAME''], None)
   \<and> loadFromEnv (environ [(''DB_Name'', ''first''), (''DB_NAME'', ''second'')]) plainScalar
        [''DB_Name'', ''DB_NAME''] TString (VString '''')
      = (VString ''first'', [''DB_Name''], None)
   \<and> (\<exists>rest. fst (snd (processFields (environ [(''DB_NAME'', ''test'')]) plainScalar [''DB'']
                          ((dbName, TString) # [(dbPort, TInt)]) (VString '''' # [VInt 0])))
        = [''DB_Name'', ''DB_NAME''] @ rest)"
proof -
  have t1: "tagGet (Tag dbPassword) ''env'' \<noteq> ''''"
    and t1v: "tagGet (Tag dbPassword) ''env'' = ''DBPassword''"
    and t2: "tagGet (Tag dbName) ''env'' = ''''"
    and t3: "canInterface dbName"
    and j: "Join ([''DB''] @ [Name dbName]) ''_'' = ''DB_Name''"
    and sn: "toScreamingSnakeCase ''DB_Name'' = ''DB_NAME''"
    by code_simp+
  note a = envNames_candidates_in_order[of dbPassword "[''DB'']",
      THEN conjunct1, rule_format, OF t1]
  note b = envNames_candidates_in_order[of dbName "[''DB'']",
      THEN conjunct2, THEN conjunct1, rule_format, OF t2]
  note c = envNames_candidates_in_order[of dbName "[''DB'']"
      "environ [(''DB_NAME'', ''test'')]" plainScalar "[''DB_Name'', ''DB_NAME'']" TString
      "VString ''''" "[(dbPort, TInt)]" "[VInt 0]",
      THEN conjunct2, THEN conjunct2]
  note d = envNames_candidates_in_order[of dbName "[''DB'']"
      "environ [(''DB_Name'', ''first''), (''DB_NAME'', ''second'')]" plainScalar
      "[''DB_Name'', ''DB_NAME'']" TString "VString ''''",
      THEN conjunct2, THEN conjunct2, THEN conjunct1]
  have names: "envNames [''DB''] dbName = [''DB_Name'', ''DB_NAME'']"
    using b by (simp only: j sn)
  have l1: "loadFromEnv (environ [(''DB_NAME'', ''test'')]) plainScalar [''DB_Name'', ''DB_NAME'']
        TString (VString '''')
      = (VString ''test'', [''DB_Name'', ''DB_NAME''], None)"
    by (subst c[THEN conjunct1]) code_simp
  have l2: "loadFromEnv (environ [(''DB_Name'', ''first''), (''DB_NAME'', ''second'')]) plainScalar
        [''DB_Name'', ''DB_NAME''] TString (VString '''')
      = (VString ''first'', [''DB_Name''], None)"
    by (subst d) code_simp
  have l3: "\<exists>rest. fst (snd (processFields (environ [(''DB_NAME'', ''test'')]) plainScalar [''DB'']
                          ((dbName, TString) # [(dbPort, TInt)]) (VString '''' # [VInt 0])))
        = [''DB_Name'', ''DB_NAME''] @ rest"
    using c[THEN conjunct2, rule_format, OF t3] by (simp only: names l1 fst_conv snd_conv)
  from a t1v names l1 l2 l3 show ?thesis by simp
qed

text \<open>
  C6. For an interfaceable field that is embedded and tagged \<^verbatim>\<open>anonymous:"true"\<close>,
  at any position of a struct and under any prefix, the pass over the struct hands the
  prefix of the struct itself, unchanged, to the recursion into the field: the field's
  own name is no segment of it. So when the field is a struct, the first names looked
  up after the field's own are those of its first child, built from the prefix of the
  enclosing struct and the child's name alone. In the README's example under the
  prefix \<^verbatim>\<open>WEB\<close> the names tried for \<^verbatim>\<open>Description\<close> are \<^verbatim>\<open>WEB_Description\<close> and
  \<^verbatim>\<open>WEB_DESCRIPTION\<close>, and \<^verbatim>\<open>WEB_DETAILS_DESCRIPTION\<close> is never looked up.
\<close>

theorem anonymous_field_keeps_prefix:
  assumes "canInterface fs"
    and "Anonymous fs"
    and "tagGet (Tag fs) ''anonymous'' = ''true''"
    and "length vs1 = length fds1"
    and "processFields getenv unm prefixes fds1 vs1 = (vs1', l0, None)"
  shows "prefix prefixes fs = prefixes
    \<and> processFields getenv unm prefixes (fds1 @ (fs, ty) # fds2) (vs1 @ v # vs2) =
        (case loadFromEnv getenv unm (envNames prefixes fs) ty v of
           (v1, l1, Some err) \<Rightarrow> (vs1' @ v1 # vs2, l0 @ l1, Some err)
         | (v1, l1, None) \<Rightarrow>
             (case applyDefault unm fs ty v1 of
                (v2, Some err) \<Rightarrow> (vs1' @ v2 # vs2, l0 @ l1, Some err)
              | (v2, None) \<Rightarrow>
                  (case descend getenv unm prefixes ty v2 of
                     (v3, l3, Some err) \<Rightarrow> (vs1' @ v3 # vs2, l0 @ l1 @ l3, Some err)
                   | (v3, l3, None) \<Rightarrow>
                       (case processFields getenv unm prefixes fds2 vs2 of
                          (vs2', l4, err) \<Rightarrow>
                            (vs1' @ v3 # vs2', l0 @ l1 @ l3 @ l4, err)))))
    \<and> (\<forall>child cty sub v1 l1 w ws.
          ty = TStruct ((child, cty) # sub)
          \<and> loadFromEnv getenv unm (envNames prefixes fs) ty v = (v1, l1, None)
          \<and> applyDefault unm fs ty v1 = (VStruct (w # ws), None)
          \<and> canInterface child \<and> tagGet (Tag child) ''env'' = '''' \<longrightarrow>
          (\<exists>rest.
             fst (snd (processFields getenv unm prefixes (fds1 @ (fs, ty) # fds2)
                         (vs1 @ v # vs2)))
               = l0 @ l1
                 @ fst (snd (loadFromEnv getenv unm
                               [Join (prefixes @ [Name child]) ''_'',
                                toScreamingSnakeCase (Join (prefixes @ [Name child]) ''_'')]
                               cty w))
                 @ rest))"
proof (intro conjI allI impI)
  show p: "prefix prefixes fs = prefixes"
    using assms(2,3) by (simp add: prefix_def)
  show eq: "processFields getenv unm prefixes (fds1 @ (fs, ty) # fds2) (vs1 @ v # vs2) =
        (case loadFromEnv getenv unm (envNames prefixes fs) ty v of
           (v1, l1, Some err) \<Rightarrow> (vs1' @ v1 # vs2, l0 @ l1, Some err)
         | (v1, l1, None) \<Rightarrow>
             (case applyDefault unm fs ty v1 of
                (v2, Some err) \<Rightarrow> (vs1' @ v2 # vs2, l0 @ l1, Some err)
              | (v2, None) \<Rightarrow>
                  (case descend getenv unm prefixes ty v2 of
                     (v3, l3, Some err) \<Rightarrow> (vs1' @ v3 # vs2, l0 @ l1 @ l3, Some err)
                   | (v3, l3, None) \<Rightarrow>
                       (case processFields getenv unm prefixes fds2 vs2 of
                          (vs2', l4, err) \<Rightarrow>
                            (vs1' @ v3 # vs2', l0 @ l1 @ l3 @ l4, err)))))"
    using assms(1,5) p
    by (simp add: processFields_append[OF assms(4)] split: prod.splits option.splits)
  fix child cty sub v1 l1 w ws
  assume h: "ty = TStruct ((child, cty) # sub)
          \<and> loadFromEnv getenv unm (envNames prefixes fs) ty v = (v1, l1, None)
          \<and> applyDefault unm fs ty v1 = (VStruct (w # ws), None)
          \<and> canInterface child \<and> tagGet (Tag child) ''env'' = ''''"
  then have names: "envNames prefixes child =
      [Join (prefixes @ [Name child]) ''_'',
       toScreamingSnakeCase (Join (prefixes @ [Name child]) ''_'')]"
    by (simp add: envNames_def)
  obtain c1 lc ec where lc: "loadFromEnv getenv unm (envNames prefixes child) cty w = (c1, lc, ec)"
    by (cases "loadFromEnv getenv unm (envNames prefixes child) cty w") auto
  from h have ci: "canInterface child" by simp
  have "\<exists>rest. fst (snd (processFields getenv unm prefixes ((child, cty) # sub) (w # ws)))
      = lc @ rest"
    using ci lc by (auto split: prod.splits option.splits)
  then obtain r1 where r1: "fst (snd (processFields getenv unm prefixes ((child, cty) # sub)
      (w # ws))) = lc @ r1" by blast
  have "\<exists>rest. fst (snd (descend getenv unm prefixes ty (VStruct (w # ws)))) = lc @ rest"
    using h r1 by (auto split: prod.splits)
  then obtain r2 where r2: "fst (snd (descend getenv unm prefixes ty (VStruct (w # ws))))
      = lc @ r2" by blast
  have "\<exists>rest. fst (snd (processFields getenv unm prefixes (fds1 @ (fs, ty) # fds2)
      (vs1 @ v # vs2))) = l0 @ l1 @ lc @ rest"
    unfolding eq using h r2 by (auto split: prod.splits option.splits)
  then show "\<exists>rest.
             fst (snd (processFields getenv unm prefixes (fds1 @ (fs, ty) # fds2)
                         (vs1 @ v # vs2)))
               = l0 @ l1
                 @ fst (snd (loadFromEnv getenv unm
                               [Join (prefixes @ [Name child]) ''_'',
                                toScreamingSnakeCase (Join (prefixes @ [Name child]) ''_'')]
                               cty w))
                 @ rest"
    using lc unfolding names by simp
qed

theorem anonymous_field_keeps_prefix_witness:
  "prefix [''WEB''] detailsField = [''WEB'']
   \<and> processFields (environ [(''WEB_DESCRIPTION'', ''hello''), (''WEB_DETAILS_DESCRIPTION'', ''other'')])
        plainScalar [''WEB'']
        ([(field ''APPName'' [], TString)]
           @ (detailsField, TStruct [(field ''Description'' [], TString)]) # [])
        ([VString ''app''] @ VStruct [VString ''''] # [])
      = ([VString ''app'', VStruct [VString ''hello'']],
         [''WEB_APPName'', ''WEB_APP_NAME'', ''WEB_Details'', ''WEB_DETAILS'',
          ''WEB_Description'', ''WEB_DESCRIPTION''], None)
   \<and> (\<exists>rest.
         fst (snd (processFields
                     (environ [(''WEB_DESCRIPTION'', ''hello''), (''WEB_DETAILS_DESCRIPTION'', ''other'')])
                     plainScalar [''WEB'']
                     ([(field ''APPName'' [], TString)]
                        @ (detailsField, TStruct [(field ''Description'' [], TString)]) # [])
                     ([VString ''app''] @ VStruct [VString ''''] # [])))
           = [''WEB_APPName'', ''WEB_APP_NAME''] @ [''WEB_Details'', ''WEB_DETAILS'']
             @ [''WEB_Description'', ''WEB_DESCRIPTION''] @ rest)"
proof -
  let ?g = "environ [(''WEB_DESCRIPTION'', ''hello''), (''WEB_DETAILS_DESCRIPTION'', ''other'')]"
  let ?ty = "TStruct [(field ''Description'' [], TString)]"
  have a1: "canInterface detailsField" and a2: "Anonymous detailsField"
    and a3: "tagGet (Tag detailsField) ''anonymous'' = ''true''"
    by code_simp+
  have a4: "length [VString ''app''] = length [(field ''APPName'' [], TString)]" by simp
  have a5: "processFields ?g plainScalar [''WEB''] [(field ''APPName'' [], TString)]
      [VString ''app''] = ([VString ''app''], [''WEB_APPName'', ''WEB_APP_NAME''], None)"
    by code_simp
  note t = anonymous_field_keeps_prefix[OF a1 a2 a3 a4 a5, of ?ty "[]" "VStruct [VString '''']" "[]"]
  have own: "loadFromEnv ?g plainScalar (envNames [''WEB''] detailsField) ?ty (VStruct [VString ''''])
      = (VStruct [VString ''''], [''WEB_Details'', ''WEB_DETAILS''], None)"
    by code_simp
  have h: "?ty = TStruct ((field ''Description'' [], TString) # [])
      \<and> loadFromEnv ?g plainScalar (envNames [''WEB''] detailsField) ?ty (VStruct [VString ''''])
          = (VStruct [VString ''''], [''WEB_Details'', ''WEB_DETAILS''], None)
      \<and> applyDefault plainScalar detailsField ?ty (VStruct [VString ''''])
          = (VStruct (VString '''' # []), None)
      \<and> canInterface (field ''Description'' [])
      \<and> tagGet (Tag (field ''Description'' [])) ''env'' = ''''"
    by code_simp
  have child: "loadFromEnv ?g plainScalar
      [Join ([''WEB''] @ [Name (field ''Description'' [])]) ''_'',
       toScreamingSnakeCase (Join ([''WEB''] @ [Name (field ''Description'' [])]) ''_'')]
      TString (VString '''')
      = (VString ''hello'', [''WEB_Description'', ''WEB_DESCRIPTION''], None)"
    by code_simp
  have run: "processFields ?g plainScalar [''WEB'']
        ([(field ''APPName'' [], TString)] @ (detailsField, ?ty) # [])
        ([VString ''app''] @ VStruct [VString ''''] # [])
      = ([VString ''app'', VStruct [VString ''hello'']],
         [''WEB_APPName'', ''WEB_APP_NAME'', ''WEB_Details'', ''WEB_DETAILS'',
          ''WEB_Description'', ''WEB_DESCRIPTION''], None)"
    by code_simp
  from t[THEN conjunct2, THEN conjunct2, rule_format, OF h]
  have ex: "\<exists>rest.
         fst (snd (processFields ?g plainScalar [''WEB'']
                     ([(field ''APPName'' [], TString)] @ (detailsField, ?ty) # [])
                     ([VString ''app''] @ VStruct [VString ''''] # [])))
           = [''WEB_APPName'', ''WEB_APP_NAME''] @ [''WEB_Details'', ''WEB_DETAILS'']
             @ [''WEB_Description'', ''WEB_DESCRIPTION''] @ rest"
    unfolding child fst_conv snd_conv .
  from t[THEN conjunct1] run ex show ?thesis by blast
qed

subsection \<open>A required field that is blank\<close>

text \<open>The loop over the elements of a slice on the first elements and on the
  others.\<close>

lemma processElems_append:
  "processElems g u p t (xs1 @ xs2) i =
     (case processElems g u p t xs1 i of
        (xs1', l1, Some e) \<Rightarrow> (xs1' @ xs2, l1, Some e)
      | (xs1', l1, None) \<Rightarrow>
          (case processElems g u p t xs2 (i + length xs1) of
             (xs2', l2, e) \<Rightarrow> (xs1' @ xs2', l1 @ l2, e)))"
proof (induction xs1 arbitrary: i)
  case Nil
  show ?case by (simp split: prod.splits)
next
  case (Cons x xs1)
  from Cons[of "Suc i"] show ?case
    by (simp del: processElem.simps Sprint.simps split: prod.splits option.splits)
qed

text \<open>
  C2, as the code has it. The required check is made only for a field that Bind
  processes (an interfaceable field) and that declares no default.
  \<^item> When such a field is blank after the environment step and is required, its steps
    end with the error \<^verbatim>\<open><Name> is required, but blank\<close>, made of the field's own
    name, before any recursion into it: its value is the one the environment step left
    and only its own names were looked up.
  \<^item> The error of a field, whether its own or the one returned by the recursion into
    it, is returned at once by every enclosing part of the pass up to Bind itself: by
    the loop over the fields of the struct, where the fields after it keep their
    values and nothing more is looked up; by the recursion through a pointer, into a
    struct and into a slice; and by the loop over the elements of a slice, where the
    elements after it keep their values.
\<close>

theorem required_blank_aborts_pass:
  "(\<forall>fs ty v v1 l.
      loadFromEnv getenv unm (envNames prefixes fs) ty v = (v1, l, None)
      \<and> isBlank ty v1 \<and> tagGet (Tag fs) ''default'' = ''''
      \<and> tagGet (Tag fs) ''required'' = ''true'' \<longrightarrow>
      processField getenv unm prefixes fs ty v
        = (v1, l, Some (ErrorNew (Name fs @ '' is required, but blank''))))
   \<and> (\<forall>fs ty v v1 l v2 v3 l3 e.
      loadFromEnv getenv unm (envNames prefixes fs) ty v = (v1, l, None)
      \<and> applyDefault unm fs ty v1 = (v2, None)
      \<and> descend getenv unm (prefix prefixes fs) ty v2 = (v3, l3, Some e) \<longrightarrow>
      processField getenv unm prefixes fs ty v = (v3, l @ l3, Some e))
   \<and> (\<forall>fds1 vs1 vs1' l1 fs ty v v' l e fds2 vs2.
      canInterface fs \<and> length vs1 = length fds1
      \<and> processFields getenv unm prefixes fds1 vs1 = (vs1', l1, None)
      \<and> processField getenv unm prefixes fs ty v = (v', l, Some e) \<longrightarrow>
      processFields getenv unm prefixes (fds1 @ (fs, ty) # fds2) (vs1 @ v # vs2)
        = (vs1' @ v' # vs2, l1 @ l, Some e))
   \<and> (\<forall>fds vs vs' l e.
      processFields getenv unm prefixes fds vs = (vs', l, Some e) \<longrightarrow>
      descend getenv unm prefixes (TStruct fds) (VStruct vs) = (VStruct vs', l, Some e)
      \<and> processElem getenv unm prefixes (TStruct fds) (VStruct vs) = (VStruct vs', l, Some e)
      \<and> processElem getenv unm prefixes (TPtr (TStruct fds)) (VPtr (Some (VStruct vs)))
          = (VPtr (Some (VStruct vs')), l, Some e)
      \<and> processTags getenv unm (TPtr (TStruct fds)) (VPtr (Some (VStruct vs))) prefixes
          = (VPtr (Some (VStruct vs')), l, Some e))
   \<and> (\<forall>t x x' l e.
      descend getenv unm prefixes t x = (x', l, Some e) \<longrightarrow>
      descend getenv unm prefixes (TPtr t) (VPtr (Some x)) = (VPtr (Some x'), l, Some e))
   \<and> (\<forall>t xs xs' l e.
      processElems getenv unm prefixes t xs 0 = (xs', l, Some e) \<longrightarrow>
      descend getenv unm prefixes (TSlice t) (VSlice (Some xs)) = (VSlice (Some xs'), l, Some e))
   \<and> (\<forall>t xs1 xs1' l1 i x x' l e xs2.
      processElems getenv unm prefixes t xs1 i = (xs1', l1, None)
      \<and> processElem getenv unm (prefixes @ [Sprint (i + length xs1)]) t x = (x', l, Some e) \<longrightarrow>
      processElems getenv unm prefixes t (xs1 @ x # xs2) i = (xs1' @ x' # xs2, l1 @ l, Some e))"
proof (intro conjI allI impI)
  fix fs ty v v1 l
  assume "loadFromEnv getenv unm (envNames prefixes fs) ty v = (v1, l, None)
      \<and> isBlank ty v1 \<and> tagGet (Tag fs) ''default'' = ''''
      \<and> tagGet (Tag fs) ''required'' = ''true''"
  then show "processField getenv unm prefixes fs ty v
        = (v1, l, Some (ErrorNew (Name fs @ '' is required, but blank'')))"
    by (simp add: processField_def applyDefault_def)
next
  fix fs ty v v1 l v2 v3 l3 e
  assume "loadFromEnv getenv unm (envNames prefixes fs) ty v = (v1, l, None)
      \<and> applyDefault unm fs ty v1 = (v2, None)
      \<and> descend getenv unm (prefix prefixes fs) ty v2 = (v3, l3, Some e)"
  then show "processField getenv unm prefixes fs ty v = (v3, l @ l3, Some e)"
    by (simp add: processField_def)
next
  fix fds1 vs1 vs1' l1 fs ty v v' l e fds2 vs2
  assume h: "canInterface fs \<and> length vs1 = length fds1
      \<and> processFields getenv unm prefixes fds1 vs1 = (vs1', l1, None)
      \<and> processField getenv unm prefixes fs ty v = (v', l, Some e)"
  then have len: "length vs1 = length fds1" by simp
  from h show "processFields getenv unm prefixes (fds1 @ (fs, ty) # fds2) (vs1 @ v # vs2)
        = (vs1' @ v' # vs2, l1 @ l, Some e)"
    by (auto simp: processFields_append[OF len] processField_def
        split: prod.splits option.splits)
next
  fix fds vs vs' l e
  assume h: "processFields getenv unm prefixes fds vs = (vs', l, Some e)"
  then show "descend getenv unm prefixes (TStruct fds) (VStruct vs) = (VStruct vs', l, Some e)"
    by simp
  from h show "processElem getenv unm prefixes (TStruct fds) (VStruct vs)
      = (VStruct vs', l, Some e)"
    by simp
  from h show "processElem getenv unm prefixes (TPtr (TStruct fds)) (VPtr (Some (VStruct vs)))
          = (VPtr (Some (VStruct vs')), l, Some e)"
    by simp
  from h show "processTags getenv unm (TPtr (TStruct fds)) (VPtr (Some (VStruct vs))) prefixes
          = (VPtr (Some (VStruct vs')), l, Some e)"
    by (simp add: processTags_def)
next
  fix t x x' l e
  assume "descend getenv unm prefixes t x = (x', l, Some e)"
  then show "descend getenv unm prefixes (TPtr t) (VPtr (Some x)) = (VPtr (Some x'), l, Some e)"
    by simp
next
  fix t xs xs' l e
  assume "processElems getenv unm prefixes t xs 0 = (xs', l, Some e)"
  then show "descend getenv unm prefixes (TSlice t) (VSlice (Some xs))
      = (VSlice (Some xs'), l, Some e)"
    by simp
next
  fix t xs1 xs1' l1 i x x' l e xs2
  assume "processElems getenv unm prefixes t xs1 i = (xs1', l1, None)
      \<and> processElem getenv unm (prefixes @ [Sprint (i + length xs1)]) t x = (x', l, Some e)"
  then show "processElems getenv unm prefixes t (xs1 @ x # xs2) i
      = (xs1' @ x' # xs2, l1 @ l, Some e)"
    by (simp add: processElems_append del: processElem.simps Sprint.simps)
qed

theorem required_blank_aborts_pass_witness:
  "processTags (environ []) plainScalar (TPtr (TStruct contactsConfig))
     (VPtr (Some (VStruct [VSlice (Some [VStruct [VString ''n'', VString '''']]), VString ''''])))
     []
   = (VPtr (Some (VStruct [VSlice (Some [VStruct [VString ''n'', VString '''']]), VString ''''])),
      [''Contacts'', ''CONTACTS'', ''Contacts_0_Name'', ''CONTACTS_0_NAME'',
       ''Contacts_0_Email'', ''CONTACTS_0_EMAIL''],
      Some (ErrorNew ''Email is required, but blank''))"
proof -
  let ?g = "environ []"
  let ?email = "field ''Email'' [(''required'', ''true'')]"
  let ?name = "field ''Name'' []"
  let ?contacts = "field ''Contacts'' []"
  let ?after = "field ''After'' [(''default'', ''x'')]"
  let ?err = "ErrorNew ''Email is required, but blank''"
  let ?elem = "VStruct [VString ''n'', VString '''']"
  note inner = required_blank_aborts_pass[of ?g plainScalar "[''Contacts'', ''0'']"]
  note slice = required_blank_aborts_pass[of ?g plainScalar "[''Contacts'']"]
  note top = required_blank_aborts_pass[of ?g plainScalar "[]"]
  have nm: "Name ?email = ''Email''" by code_simp
  have cf: "contactFields = [(?name, TString)] @ (?email, TString) # []"
    by (simp add: contactFields_def)
  have cc: "contactsConfig = [] @ (?contacts, TSlice (TStruct contactFields)) # [(?after, TString)]"
    by (simp add: contactsConfig_def)
  \<comment> \<open>the field Email of the element\<close>
  have a: "loadFromEnv ?g plainScalar (envNames [''Contacts'', ''0''] ?email) TString (VString '''')
        = (VString '''', [''Contacts_0_Email'', ''CONTACTS_0_EMAIL''], None)
      \<and> isBlank TString (VString '''') \<and> tagGet (Tag ?email) ''default'' = ''''
      \<and> tagGet (Tag ?email) ''required'' = ''true''"
    by code_simp
  have s1: "processField ?g plainScalar [''Contacts'', ''0''] ?email TString (VString '''')
      = (VString '''', [''Contacts_0_Email'', ''CONTACTS_0_EMAIL''], Some ?err)"
    using inner[THEN conjunct1, rule_format, OF a] by (simp only: nm) simp
  \<comment> \<open>the fields of the element\<close>
  have b: "canInterface ?email \<and> length [VString ''n''] = length [(?name, TString)]
      \<and> processFields ?g plainScalar [''Contacts'', ''0''] [(?name, TString)] [VString ''n'']
          = ([VString ''n''], [''Contacts_0_Name'', ''CONTACTS_0_NAME''], None)
      \<and> processField ?g plainScalar [''Contacts'', ''0''] ?email TString (VString '''')
          = (VString '''', [''Contacts_0_Email'', ''CONTACTS_0_EMAIL''], Some ?err)"
    using s1 by (intro conjI) (code_simp, simp, code_simp, simp)
  have s2: "processFields ?g plainScalar [''Contacts'', ''0''] contactFields
        [VString ''n'', VString '''']
      = ([VString ''n'', VString ''''],
         [''Contacts_0_Name'', ''CONTACTS_0_NAME'', ''Contacts_0_Email'', ''CONTACTS_0_EMAIL''],
         Some ?err)"
    using inner[THEN conjunct2, THEN conjunct2, THEN conjunct1, rule_format, OF b,
        of "[]" "[]"]
    unfolding cf by simp
  \<comment> \<open>the element\<close>
  have s3: "processElem ?g plainScalar [''Contacts'', ''0''] (TStruct contactFields) ?elem
      = (?elem,
         [''Contacts_0_Name'', ''CONTACTS_0_NAME'', ''Contacts_0_Email'', ''CONTACTS_0_EMAIL''],
         Some ?err)"
    using inner[THEN conjunct2, THEN conjunct2, THEN conjunct2, THEN conjunct1, rule_format,
        OF s2]
    by blast
  \<comment> \<open>the loop over the elements\<close>
  have sp: "[''Contacts''] @ [Sprint (0 + length ([]::goval list))] = [''Contacts'', ''0'']"
    by code_simp
  have c: "processElems ?g plainScalar [''Contacts''] (TStruct contactFields) [] 0 = ([], [], None)
      \<and> processElem ?g plainScalar ([''Contacts''] @ [Sprint (0 + length ([]::goval list))])
            (TStruct contactFields) ?elem
          = (?elem,
             [''Contacts_0_Name'', ''CONTACTS_0_NAME'', ''Contacts_0_Email'',
              ''CONTACTS_0_EMAIL''],
             Some ?err)"
    unfolding sp using s3 by simp
  have s4: "processElems ?g plainScalar [''Contacts''] (TStruct contactFields) [?elem] 0
      = ([?elem],
         [''Contacts_0_Name'', ''CONTACTS_0_NAME'', ''Contacts_0_Email'', ''CONTACTS_0_EMAIL''],
         Some ?err)"
    using slice[THEN conjunct2, THEN conjunct2, THEN conjunct2, THEN conjunct2, THEN conjunct2,
        THEN conjunct2, rule_format, OF c, of "[]"]
    by simp
  \<comment> \<open>the slice\<close>
  have s5: "descend ?g plainScalar [''Contacts''] (TSlice (TStruct contactFields))
        (VSlice (Some [?elem]))
      = (VSlice (Some [?elem]),
         [''Contacts_0_Name'', ''CONTACTS_0_NAME'', ''Contacts_0_Email'', ''CONTACTS_0_EMAIL''],
         Some ?err)"
    using slice[THEN conjunct2, THEN conjunct2, THEN conjunct2, THEN conjunct2, THEN conjunct2,
        THEN conjunct1, rule_format, OF s4] .
  \<comment> \<open>the field Contacts\<close>
  have pc: "prefix [] ?contacts = [''Contacts'']" by code_simp
  have d: "loadFromEnv ?g plainScalar (envNames [] ?contacts) (TSlice (TStruct contactFields))
          (VSlice (Some [?elem]))
        = (VSlice (Some [?elem]), [''Contacts'', ''CONTACTS''], None)
      \<and> applyDefault plainScalar ?contacts (TSlice (TStruct contactFields))
          (VSlice (Some [?elem])) = (VSlice (Some [?elem]), None)
      \<and> descend ?g plainScalar (prefix [] ?contacts) (TSlice (TStruct contactFields))
          (VSlice (Some [?elem]))
        = (VSlice (Some [?elem]),
           [''Contacts_0_Name'', ''CONTACTS_0_NAME'', ''Contacts_0_Email'', ''CONTACTS_0_EMAIL''],
           Some ?err)"
    unfolding pc using s5 by (intro conjI) (code_simp, code_simp, simp)
  have s6: "processField ?g plainScalar [] ?contacts (TSlice (TStruct contactFields))
        (VSlice (Some [?elem]))
      = (VSlice (Some [?elem]),
         [''Contacts'', ''CONTACTS''] @
         [''Contacts_0_Name'', ''CONTACTS_0_NAME'', ''Contacts_0_Email'', ''CONTACTS_0_EMAIL''],
         Some ?err)"
    using top[THEN conjunct2, THEN conjunct1, rule_format, OF d] .
  \<comment> \<open>the fields of the target\<close>
  have e: "canInterface ?contacts
      \<and> length ([]::goval list) = length ([]::(StructField \<times> gotype) list)
      \<and> processFields ?g plainScalar [] [] [] = ([], [], None)
      \<and> processField ?g plainScalar [] ?contacts (TSlice (TStruct contactFields))
          (VSlice (Some [?elem]))
        = (VSlice (Some [?elem]),
           [''Contacts'', ''CONTACTS''] @
           [''Contacts_0_Name'', ''CONTACTS_0_NAME'', ''Contacts_0_Email'',
            ''CONTACTS_0_EMAIL''],
           Some ?err)"
    using s6 by (intro conjI) (code_simp, simp, simp, simp)
  have s7: "processFields ?g plainScalar [] contactsConfig [VSlice (Some [?elem]), VString '''']
      = ([VSlice (Some [?elem]), VString ''''],
         [''Contacts'', ''CONTACTS'', ''Contacts_0_Name'', ''CONTACTS_0_NAME'',
          ''Contacts_0_Email'', ''CONTACTS_0_EMAIL''],
         Some ?err)"
    using top[THEN conjunct2, THEN conjunct2, THEN conjunct1, rule_format, OF e,
        of "[(?after, TString)]" "[VString '''']"]
    unfolding cc by simp
  \<comment> \<open>Bind\<close>
  show ?thesis
    using top[THEN conjunct2, THEN conjunct2, THEN conjunct2, THEN conjunct1, rule_format,
        OF s7]
    by blast
qed

text \<open>
  Where the claim as written fails.
  \<^item> \<^verbatim>\<open>Port int `default:"0" required:"true"`\<close> with no variable set: the field is
    blank after the environment step, the default \<^verbatim>\<open>0\<close> is decoded into it and leaves
    it blank, the field is required, and Bind succeeds.
  \<^item> \<^verbatim>\<open>token string `required:"true"`\<close>, an unexported field, with no variable set:
    Bind passes over the field, which stays blank, and succeeds.
\<close>

theorem required_with_default_counterexample:
  "canInterface portZeroRequired
   \<and> tagGet (Tag portZeroRequired) ''required'' = ''true''
   \<and> loadFromEnv (environ []) plainScalar (envNames [] portZeroRequired) TInt (VInt 0)
       = (VInt 0, [''Port'', ''PORT''], None)
   \<and> applyDefault plainScalar portZeroRequired TInt (VInt 0) = (VInt 0, None)
   \<and> isBlank TInt (VInt 0)
   \<and> processTags (environ []) plainScalar (TPtr (TStruct [(portZeroRequired, TInt)]))
        (VPtr (Some (VStruct [VInt 0]))) []
       = (VPtr (Some (VStruct [VInt 0])), [''Port'', ''PORT''], None)
   \<and> canInterface tokenField = False
   \<and> tagGet (Tag tokenField) ''required'' = ''true''
   \<and> tagGet (Tag tokenField) ''default'' = ''''
   \<and> isBlank TString (VString '''')
   \<and> processTags (environ []) plainScalar (TPtr (TStruct [(tokenField, TString)]))
        (VPtr (Some (VStruct [VString '''']))) []
       = (VPtr (Some (VStruct [VString ''''])), [], None)"
  by code_simp

subsection \<open>Reading a JSON file\<close>

lemma HasSuffix_last: "HasSuffix s suf \<Longrightarrow> suf \<noteq> [] \<Longrightarrow> last s = last suf"
proof -
  assume h: "HasSuffix s suf" and ne: "suf \<noteq> []"
  from h have le: "length suf \<le> length s" and d: "drop (length s - length suf) s = suf"
    by (simp_all add: HasSuffix_def)
  from ne le have "length s - length suf < length s"
    by (cases suf) auto
  then have "last (drop (length s - length suf) s) = last s"
    by (rule last_drop)
  with d show ?thesis by simp
qed

lemma json_suffix_only:
  assumes "HasSuffix path ''.json''"
  shows "\<not> HasSuffix path ''.yaml'' \<and> \<not> HasSuffix path ''.yml'' \<and> \<not> HasSuffix path ''.toml''"
proof -
  have n: "last path = CHR ''n''" using HasSuffix_last[OF assms] by simp
  have "HasSuffix path ''.yaml'' \<Longrightarrow> False" using HasSuffix_last[of path "''.yaml''"] n by simp
  moreover have "HasSuffix path ''.yml'' \<Longrightarrow> False" using HasSuffix_last[of path "''.yml''"] n by simp
  moreover have "HasSuffix path ''.toml'' \<Longrightarrow> False" using HasSuffix_last[of path "''.toml''"] n by simp
  ultimately show ?thesis by blast
qed

text \<open>
  C10. When the JSON decoder reports end-of-file, having stored nothing (as it does
  on a file of no bytes), unmarshalJSON returns no error and the target is unchanged,
  whether unknown fields are disallowed or not; so does UnmarshalFile on a readable
  \<^verbatim>\<open>.json\<close> file, and the loop of Load goes on to the next file. On no input does
  unmarshalJSON return the end-of-file error.
\<close>

theorem unmarshalJSON_EOF_is_success:
  "jsonDecode lib strict data ty v = (v, Some EOF) \<Longrightarrow>
   unmarshalJSON lib data ty v strict = (v, None)
   \<and> snd (unmarshalJSON lib data' ty' v' strict') \<noteq> Some EOF
   \<and> (ReadFile lib file = Inr data \<and> HasSuffix file ''.json'' \<longrightarrow>
        UnmarshalFile lib ty v file strict = (v, None)
        \<and> unmarshalFiles lib strict ty v (file # files) = unmarshalFiles lib strict ty v files)"
proof -
  assume d: "jsonDecode lib strict data ty v = (v, Some EOF)"
  then have u: "unmarshalJSON lib data ty v strict = (v, None)"
    by (simp add: unmarshalJSON_def)
  show ?thesis
  proof (intro conjI impI)
    show "unmarshalJSON lib data ty v strict = (v, None)" by (rule u)
  next
    show "snd (unmarshalJSON lib data' ty' v' strict') \<noteq> Some EOF"
      by (simp add: unmarshalJSON_def split: prod.splits)
  next
    assume r: "ReadFile lib file = Inr data \<and> HasSuffix file ''.json''"
    with json_suffix_only[of "file"] u
    show f: "UnmarshalFile lib ty v file strict = (v, None)"
      by (simp add: UnmarshalFile_def)
    then show "unmarshalFiles lib strict ty v (file # files) = unmarshalFiles lib strict ty v files"
      by simp
  qed
qed

theorem unmarshalJSON_EOF_is_success_witness:
  "jsonDecode emptyJSON True '''' (TPtr (TStruct dbFields)) (VPtr (Some (VStruct [])))
     = (VPtr (Some (VStruct [])), Some EOF)
   \<and> unmarshalJSON emptyJSON '''' (TPtr (TStruct dbFields)) (VPtr (Some (VStruct []))) True
     = (VPtr (Some (VStruct [])), None)
   \<and> UnmarshalFile emptyJSON (TPtr (TStruct dbFields)) (VPtr (Some (VStruct []))) ''config.json'' True
     = (VPtr (Some (VStruct [])), None)
   \<and> unmarshalFiles emptyJSON True (TPtr (TStruct dbFields)) (VPtr (Some (VStruct [])))
        (''config.json'' # [])
     = (VPtr (Some (VStruct [])), None)"
proof -
  have d: "jsonDecode emptyJSON True '''' (TPtr (TStruct dbFields)) (VPtr (Some (VStruct [])))
     = (VPtr (Some (VStruct [])), Some EOF)"
    by (simp add: emptyJSON_def)
  have r: "ReadFile emptyJSON ''config.json'' = Inr '''' \<and> HasSuffix ''config.json'' ''.json''"
    by (simp add: emptyJSON_def HasSuffix_def)
  note w = unmarshalJSON_EOF_is_success[OF d, of _ _ _ _ "''config.json''" "[]"]
  from w[THEN conjunct1] w[THEN conjunct2, THEN conjunct2, rule_format, OF r] d
  show ?thesis by simp
qed

subsection \<open>Defaults and the environment\<close>

lemma envFailureOnly_simp [simp]:
  "envFailureOnly g u (x, l, e) = (case e of None \<Rightarrow> True | Some e \<Rightarrow> envFailure g u l e)"
  by (cases e) (simp_all add: envFailureOnly_def)

lemma envFailure_append: "envFailure g u l e \<Longrightarrow> envFailure g u (l0 @ l) e"
  by (auto simp: envFailure_def)


lemma loadFromEnv_envFailureOnly: "envFailureOnly g u (loadFromEnv g u names ty v)"
proof (induction names)
  case Nil
  show ?case by (simp add: envFailureOnly_def)
next
  case (Cons n names)
  show ?case
  proof (cases "g n = ''''")
    case True
    with Cons show ?thesis
      by (auto simp: envFailure_def split: prod.splits option.splits)
  next
    case False
    then show ?thesis
      by (auto simp: envFailure_def split: prod.splits option.splits)
         (metis snd_conv)
  qed
qed

lemma applyDefault_ok:
  "defaultSatisfied u fs ty \<Longrightarrow> snd (applyDefault u fs ty v) = None"
  by (auto simp: applyDefault_def defaultSatisfied_def isBlank_def split: if_splits)

lemma envFailureOnly_all:
  "fieldsDefaultsOK u fds \<longrightarrow> envFailureOnly g u (processFields g u p fds vs)"
  "defaultsOK u ty \<longrightarrow> envFailureOnly g u (descend g u p ty v)"
  "defaultsOK u t \<longrightarrow> envFailureOnly g u (processElems g u p t xs i)"
  "defaultsOK u t' \<longrightarrow> envFailureOnly g u (processElem g u p t' x)"
proof (induction g u p fds vs and g u p ty v and g u p t xs i and g u p t' x
    rule: processFields_descend_processElems_processElem.induct)
  case (3 getenv unm prefixes fs ty fds v vs)
  show ?case
  proof
    assume ok: "fieldsDefaultsOK unm ((fs, ty) # fds)"
    then have ok1: "defaultSatisfied unm fs ty" and ok2: "defaultsOK unm ty"
      and ok3: "fieldsDefaultsOK unm fds" by simp_all
    show "envFailureOnly getenv unm (processFields getenv unm prefixes ((fs, ty) # fds) (v # vs))"
    proof (cases "canInterface fs")
      case False
      with 3(1) ok3 show ?thesis
        by (cases "processFields getenv unm prefixes fds vs")
           auto
    next
      case True
      obtain v1 l1 e1 where le: "loadFromEnv getenv unm (envNames prefixes fs) ty v = (v1, l1, e1)"
        by (cases "loadFromEnv getenv unm (envNames prefixes fs) ty v") auto
      have g1: "envFailureOnly getenv unm (v1, l1, e1)"
        using loadFromEnv_envFailureOnly[of getenv unm "envNames prefixes fs" ty v] le by simp
      show ?thesis
      proof (cases e1)
        case (Some err)
        with True le g1 show ?thesis by auto
      next
        case None
        obtain v2 e2 where ad: "applyDefault unm fs ty v1 = (v2, e2)"
          by (cases "applyDefault unm fs ty v1") auto
        have e2: "e2 = None" using applyDefault_ok[OF ok1, of v1] ad by simp
        obtain v3 l3 e3 where de: "descend getenv unm (prefix prefixes fs) ty v2 = (v3, l3, e3)"
          by (cases "descend getenv unm (prefix prefixes fs) ty v2") auto
        have g3: "envFailureOnly getenv unm (v3, l3, e3)"
          using 3(2)[OF _ le[symmetric] refl None ad[symmetric] e2] True ok2 de by simp
        show ?thesis
        proof (cases e3)
          case (Some err)
          with True le None ad e2 de g3 show ?thesis
            by (auto intro: envFailure_append)
        next
          case N3: None
          obtain vs' l4 e4 where pf: "processFields getenv unm prefixes fds vs = (vs', l4, e4)"
            by (cases "processFields getenv unm prefixes fds vs") auto
          have g4: "envFailureOnly getenv unm (vs', l4, e4)"
            using 3(3)[OF _ le[symmetric] refl None ad[symmetric] e2 de[symmetric] refl N3] True ok3 pf
            by simp
          show ?thesis
          proof (cases e4)
            case None
            with True le \<open>e1 = None\<close> ad e2 de N3 pf show ?thesis by simp
          next
            case (Some err)
            with g4 have "envFailureOnly getenv unm (v3 # vs', (l1 @ l3) @ l4, Some err)"
              by (auto intro: envFailure_append)
            with True le \<open>e1 = None\<close> ad e2 de N3 pf Some show ?thesis by simp
          qed
        qed
      qed
    qed
  qed
next
  case (11 getenv unm prefixes t x xs i)
  show ?case
  proof
    assume ok: "defaultsOK unm t"
    obtain x' l1 e1 where pe: "processElem getenv unm (prefixes @ [Sprint i]) t x = (x', l1, e1)"
      by (cases "processElem getenv unm (prefixes @ [Sprint i]) t x") auto
    have g1: "envFailureOnly getenv unm (x', l1, e1)" using 11(1) ok pe by simp
    show "envFailureOnly getenv unm (processElems getenv unm prefixes t (x # xs) i)"
    proof (cases e1)
      case (Some err)
      with pe g1 show ?thesis by auto
    next
      case None
      obtain xs' l2 e2 where ps: "processElems getenv unm prefixes t xs (Suc i) = (xs', l2, e2)"
        by (cases "processElems getenv unm prefixes t xs (Suc i)") auto
      have g2: "envFailureOnly getenv unm (xs', l2, e2)"
        using 11(2)[OF pe[symmetric] refl None] ok ps by simp
      show ?thesis
      proof (cases e2)
        case None
        with pe \<open>e1 = None\<close> ps show ?thesis by simp
      next
        case (Some err)
        with g2 have "envFailureOnly getenv unm (x' # xs', l1 @ l2, Some err)"
          by (auto intro: envFailure_append)
        with pe \<open>e1 = None\<close> ps Some show ?thesis by simp
      qed
    qed
  qed
next
  case (12 getenv unm prefixes t x)
  show ?case
  proof (cases t)
    case (TStruct fds)
    show ?thesis
    proof (cases x)
      case (VStruct vs)
      with TStruct 12(2)[OF TStruct VStruct] show ?thesis
        by (auto split: prod.splits option.splits)
    qed (simp_all add: TStruct)
  next
    case (TPtr t1)
    show ?thesis
    proof (cases t1)
      case (TStruct fds)
      show ?thesis
      proof (cases x)
        case (VPtr po)
        show ?thesis
        proof (cases po)
          case None
          with TPtr TStruct VPtr show ?thesis by simp
        next
          case (Some y)
          show ?thesis
          proof (cases y)
            case (VStruct vs)
            with TPtr TStruct VPtr Some 12(1)[OF TPtr TStruct VPtr Some VStruct]
            show ?thesis
              by (auto split: prod.splits option.splits)
          qed (simp_all add: TPtr TStruct VPtr Some)
        qed
      qed (simp_all add: TPtr TStruct)
    qed (simp_all add: TPtr)
  qed simp_all
qed (auto split: goval.splits option.splits prod.splits)

text \<open>
  C3, as the code has it. For a target struct in which every field, at every depth,
  has a default literal that the decoder accepts or else is not required, Bind cannot
  fail on a default or on a required field: it succeeds, or it returns the error that
  the decoder gave for the value of the environment variable it looked up last. So it
  succeeds in every state of the environment in which the variables it looks up are
  unset.
\<close>

theorem processTags_defaults_satisfied:
  assumes "fieldsDefaultsOK unm fds"
  shows "envFailureOnly getenv unm
           (processTags getenv unm (TPtr (TStruct fds)) (VPtr (Some (VStruct vs))) prefixes)
       \<and> ((\<forall>n \<in> set (fst (snd (processTags getenv unm (TPtr (TStruct fds))
                                     (VPtr (Some (VStruct vs))) prefixes))).
              getenv n = '''') \<longrightarrow>
           snd (snd (processTags getenv unm (TPtr (TStruct fds))
                       (VPtr (Some (VStruct vs))) prefixes)) = None)"
proof -
  obtain vs' looked err where r: "processFields getenv unm prefixes fds vs = (vs', looked, err)"
    by (cases "processFields getenv unm prefixes fds vs") auto
  have g: "envFailureOnly getenv unm (vs', looked, err)"
    using envFailureOnly_all(1)[of unm fds getenv prefixes vs] assms r by simp
  have pt: "processTags getenv unm (TPtr (TStruct fds)) (VPtr (Some (VStruct vs))) prefixes
      = (VPtr (Some (VStruct vs')), looked, err)"
    by (simp add: processTags_def r)
  show ?thesis
  proof (cases err)
    case None
    with pt show ?thesis by simp
  next
    case (Some e)
    with g have f: "envFailure getenv unm looked e" by simp
    then have "last looked \<in> set looked" and "getenv (last looked) \<noteq> ''''"
      by (simp_all add: envFailure_def)
    with pt Some f show ?thesis by auto
  qed
qed

theorem processTags_defaults_satisfied_witness:
  "fieldsDefaultsOK plainScalar [(dbUser, TString), (dbPort, TInt)]
   \<and> processTags (environ [(''PORT'', ''8080'')]) plainScalar
        (TPtr (TStruct [(dbUser, TString), (dbPort, TInt)]))
        (VPtr (Some (VStruct [VString '''', VInt 0]))) []
      = (VPtr (Some (VStruct [VString ''root'', VInt 8080])),
         [''User'', ''USER'', ''Port'', ''PORT''], None)
   \<and> envFailureOnly (environ [(''PORT'', ''8080'')]) plainScalar
        (processTags (environ [(''PORT'', ''8080'')]) plainScalar
           (TPtr (TStruct [(dbUser, TString), (dbPort, TInt)]))
           (VPtr (Some (VStruct [VString '''', VInt 0]))) [])
   \<and> snd (snd (processTags (environ []) plainScalar
                  (TPtr (TStruct [(dbUser, TString), (dbPort, TInt)]))
                  (VPtr (Some (VStruct [VString '''', VInt 0]))) [])) = None"
proof -
  have ok: "fieldsDefaultsOK plainScalar [(dbUser, TString), (dbPort, TInt)]"
    by code_simp
  have run: "processTags (environ [(''PORT'', ''8080'')]) plainScalar
        (TPtr (TStruct [(dbUser, TString), (dbPort, TInt)]))
        (VPtr (Some (VStruct [VString '''', VInt 0]))) []
      = (VPtr (Some (VStruct [VString ''root'', VInt 8080])),
         [''User'', ''USER'', ''Port'', ''PORT''], None)"
    by code_simp
  have unset: "\<forall>n \<in> set (fst (snd (processTags (environ []) plainScalar
                  (TPtr (TStruct [(dbUser, TString), (dbPort, TInt)]))
                  (VPtr (Some (VStruct [VString '''', VInt 0]))) []))). environ [] n = ''''"
    by (simp add: environ_def)
  note a = processTags_defaults_satisfied[OF ok, of "environ [(''PORT'', ''8080'')]"
      "[VString '''', VInt 0]" "[]", THEN conjunct1]
  note b = processTags_defaults_satisfied[OF ok, of "environ []"
      "[VString '''', VInt 0]" "[]", THEN conjunct2, THEN mp, OF unset]
  from ok run a b show ?thesis by blast
qed

text \<open>
  Where the claim as written fails: \<^verbatim>\<open>Port int `default:"3306"`\<close>, whose default is
  accepted, with \<^verbatim>\<open>PORT=abc\<close> in the environment. The value of the variable is
  decoded first, the decoder refuses it, and Bind returns that error.
\<close>

theorem malformed_environment_counterexample:
  "fieldsDefaultsOK plainScalar [(dbPort, TInt)]
   \<and> tagGet (Tag dbPort) ''default'' = ''3306''
   \<and> plainScalar ''3306'' TInt (zeroValue TInt) = (VInt 3306, None)
   \<and> processTags (environ [(''PORT'', ''abc'')]) plainScalar
        (TPtr (TStruct [(dbPort, TInt)])) (VPtr (Some (VStruct [VInt 0]))) []
      = (VPtr (Some (VStruct [VInt 0])), [''Port'', ''PORT''],
         Some (External ''cannot unmarshal into int''))"
  by code_simp

subsection \<open>Binding twice\<close>
























end
